(* ===== verification/Py_Base.thy ===== *)
theory Py_Base
  imports Complex_Main "HOL-Library.List_Lexorder" "HOL-Library.Char_ord"
    "HOL-Library.AList" "HOL-Library.Product_Lexorder"
begin

text \<open>
  The prelude: what every component uses of Python itself.

  \<^item> outcomes of a computation: a value, a raised exception, or a loop that does not return;
  \<^item> dictionaries as association lists in insertion order (\<open>AList.update\<close> is \<open>d[k] = v\<close>);
  \<^item> slices, \<open>max\<close>/\<open>min\<close> with a key (the first extreme element wins), \<open>round\<close> (half to even);
  \<^item> \<open>str.split\<close> and \<open>str.join\<close> on one separator character.

  Floats are read as exact real numbers throughout the development: rounding error, overflow and
  the signed zero are not modelled, and a NaN result is \<open>None\<close> where the code tests for it.
\<close>

named_theorems outcome_simps \<open>inversion of the outcome monad\<close>
named_theorems dict_simps \<open>lookups in updated dictionaries\<close>

type_synonym pod = string
type_synonym vec = "real list"
type_synonym ('k, 'v) dict = "('k \<times> 'v) list"

section \<open>Outcomes\<close>

datatype py_error = IndexError | KeyError | TypeError | ValueError | ZeroDivisionError | OSError | AttributeError

datatype 'a outcome = Ret 'a | Raise py_error | Diverge

fun obind :: "'a outcome \<Rightarrow> ('a \<Rightarrow> 'b outcome) \<Rightarrow> 'b outcome" where
  "obind (Ret x) f = f x"
| "obind (Raise e) f = Raise e"
| "obind Diverge f = Diverge"

fun omap :: "('a \<Rightarrow> 'b outcome) \<Rightarrow> 'a list \<Rightarrow> 'b list outcome" where
  "omap f [] = Ret []"
| "omap f (x # xs) = obind (f x) (\<lambda>y. obind (omap f xs) (\<lambda>ys. Ret (y # ys)))"

definition of_option :: "'a option \<Rightarrow> 'a outcome" where
  "of_option v = (case v of None \<Rightarrow> Diverge | Some x \<Rightarrow> Ret x)"

lemma obind_eq_Ret [outcome_simps]: "obind m f = Ret y \<longleftrightarrow> (\<exists>x. m = Ret x \<and> f x = Ret y)"
  by (cases m) auto

lemma of_option_eq_Ret [outcome_simps]: "of_option v = Ret x \<longleftrightarrow> v = Some x"
  by (auto simp: of_option_def split: option.splits)

lemma omap_eq_Ret: "omap f xs = Ret ys \<longleftrightarrow> list_all2 (\<lambda>x y. f x = Ret y) xs ys"
  by (induction xs arbitrary: ys) (auto simp: outcome_simps list_all2_Cons1)

lemma omap_total: "(\<And>x. x \<in> set xs \<Longrightarrow> \<exists>y. f x = Ret y) \<Longrightarrow> \<exists>ys. omap f xs = Ret ys"
  by (induction xs) (auto simp: outcome_simps)

lemma omap_Ret_map: "(\<And>x. x \<in> set xs \<Longrightarrow> f x = Ret (g x)) \<Longrightarrow> omap f xs = Ret (map g xs)"
  by (induction xs) auto

lemma omap_memD:
  assumes "omap f xs = Ret ys" and "y \<in> set ys"
  shows "\<exists>x \<in> set xs. f x = Ret y"
  using assms by (fastforce simp: omap_eq_Ret list_all2_conv_all_nth in_set_conv_nth)

section \<open>Dictionaries\<close>

definition dict_get :: "('k, 'v) dict \<Rightarrow> 'k \<Rightarrow> 'v \<Rightarrow> 'v" where
  "dict_get d k v = (case map_of d k of None \<Rightarrow> v | Some x \<Rightarrow> x)"

abbreviation keys :: "('k, 'v) dict \<Rightarrow> 'k list" where
  "keys d \<equiv> List.map fst d"

lemma map_of_update [dict_simps, simp]: "map_of (AList.update k v d) k' = (if k' = k then Some v else map_of d k')"
  by (simp add: update_conv')

lemma keys_update [simp]: "fst ` set (AList.update k v d) = insert k (fst ` set d)"
  using dom_update[of k v d] by (simp add: dom_map_of_conv_image_fst)

lemma keys_update_list: "keys (AList.update k v d) = (if k \<in> set (keys d) then keys d else keys d @ [k])"
  by (induction d) auto

lemma dict_get_update [dict_simps, simp]:
  "dict_get (AList.update k v d) k' x = (if k' = k then v else dict_get d k' x)"
  by (simp add: dict_get_def)

lemma dict_get_Nil [simp]: "dict_get [] k x = x"
  by (simp add: dict_get_def)

text \<open>A dictionary comprehension \<open>{k(x): v(x) for x in xs}\<close>: a later entry overwrites an earlier one.\<close>

definition dict_of :: "('k \<times> 'v) list \<Rightarrow> ('k, 'v) dict" where
  "dict_of ps = fold (\<lambda>(k, v) d. AList.update k v d) ps []"

lemma fold_update_keys:
  "fst ` set (fold (\<lambda>(k, v) d. AList.update k v d) ps d) = fst ` set d \<union> fst ` set ps"
proof (induction ps arbitrary: d)
  case (Cons p ps)
  then show ?case by (cases p) simp
qed simp

lemma fold_update_distinct:
  "distinct (keys d) \<Longrightarrow> distinct (keys (fold (\<lambda>(k, v) d. AList.update k v d) ps d))"
  by (induction ps arbitrary: d) (auto simp: distinct_update)

lemma dict_of_keys [simp]: "fst ` set (dict_of ps) = fst ` set ps"
  by (simp add: dict_of_def fold_update_keys)

lemma dict_of_distinct [simp]: "distinct (keys (dict_of ps))"
  by (simp add: dict_of_def fold_update_distinct)

lemma fold_update_mem:
  "map_of (fold (\<lambda>(k, v) d. AList.update k v d) ps d) k = Some v \<Longrightarrow>
   (k, v) \<in> set ps \<or> map_of d k = Some v"
proof (induction ps arbitrary: d)
  case (Cons p ps)
  then show ?case by (cases p) (force split: if_splits)
qed simp

lemma dict_of_memD: "map_of (dict_of ps) k = Some v \<Longrightarrow> (k, v) \<in> set ps"
  unfolding dict_of_def by (drule fold_update_mem) auto

lemma dict_of_get: "k \<in> fst ` set ps \<Longrightarrow> \<exists>v. map_of (dict_of ps) k = Some v"
  by (metis dict_of_keys domD dom_map_of_conv_image_fst)

section \<open>Slices\<close>

text \<open>\<open>xs[-n:]\<close>: for \<open>n = 0\<close> Python's \<open>-0\<close> is \<open>0\<close>, and the slice is the whole sequence.\<close>

definition py_tail :: "nat \<Rightarrow> 'a list \<Rightarrow> 'a list" where
  "py_tail n xs = (if n = 0 then xs else drop (length xs - n) xs)"

text \<open>\<open>xs[a:b]\<close> for \<open>0 \<le> a\<close> and \<open>0 \<le> b\<close>.\<close>

definition py_slice :: "nat \<Rightarrow> nat \<Rightarrow> 'a list \<Rightarrow> 'a list" where
  "py_slice a b xs = drop a (take b xs)"

lemma length_py_tail: "length (py_tail n xs) = (if n = 0 then length xs else min n (length xs))"
  by (auto simp: py_tail_def min_def)

lemma set_py_tail: "set (py_tail n xs) \<subseteq> set xs"
  by (auto simp: py_tail_def dest: in_set_dropD)

lemma length_py_slice [simp]: "length (py_slice a b xs) = min b (length xs) - a"
  by (simp add: py_slice_def min.commute)

section \<open>max and min with a key\<close>

text \<open>Python's \<open>max(xs, key=f)\<close> and \<open>min(xs, key=f)\<close> return the first extreme element; on an
  empty sequence they raise, which is \<open>None\<close> here and a default or an error at each call.\<close>

fun max_by :: "('a \<Rightarrow> 'b::linorder) \<Rightarrow> 'a \<Rightarrow> 'a list \<Rightarrow> 'a" where
  "max_by f b [] = b"
| "max_by f b (x # xs) = max_by f (if f x > f b then x else b) xs"

definition argmax :: "('a \<Rightarrow> 'b::linorder) \<Rightarrow> 'a list \<Rightarrow> 'a option" where
  "argmax f xs = (case xs of [] \<Rightarrow> None | x # xs \<Rightarrow> Some (max_by f x xs))"

fun min_by :: "('a \<Rightarrow> 'b::linorder) \<Rightarrow> 'a \<Rightarrow> 'a list \<Rightarrow> 'a" where
  "min_by f b [] = b"
| "min_by f b (x # xs) = min_by f (if f x < f b then x else b) xs"

definition argmin :: "('a \<Rightarrow> 'b::linorder) \<Rightarrow> 'a list \<Rightarrow> 'a option" where
  "argmin f xs = (case xs of [] \<Rightarrow> None | x # xs \<Rightarrow> Some (min_by f x xs))"

lemma max_by_mem: "max_by f b xs \<in> insert b (set xs)"
proof (induction xs arbitrary: b)
  case (Cons y ys)
  from Cons[of y] Cons[of b] show ?case by auto
qed simp

lemma max_by_ge: "x \<in> insert b (set xs) \<Longrightarrow> f x \<le> f (max_by f b xs)"
proof (induction xs arbitrary: b x)
  case (Cons y ys)
  have "f (if f y > f b then y else b) \<le> f (max_by f (if f y > f b then y else b) ys)"
    by (rule Cons.IH) simp
  moreover have "z \<in> set ys \<Longrightarrow> f z \<le> f (max_by f (if f y > f b then y else b) ys)" for z
    by (rule Cons.IH) simp
  ultimately show ?case using Cons.prems by (auto split: if_splits)
qed simp

lemma min_by_mem: "min_by f b xs \<in> insert b (set xs)"
proof (induction xs arbitrary: b)
  case (Cons y ys)
  from Cons[of y] Cons[of b] show ?case by auto
qed simp

lemma min_by_le: "x \<in> insert b (set xs) \<Longrightarrow> f (min_by f b xs) \<le> f x"
proof (induction xs arbitrary: b x)
  case (Cons y ys)
  have "f (min_by f (if f y < f b then y else b) ys) \<le> f (if f y < f b then y else b)"
    by (rule Cons.IH) simp
  moreover have "z \<in> set ys \<Longrightarrow> f (min_by f (if f y < f b then y else b) ys) \<le> f z" for z
    by (rule Cons.IH) simp
  ultimately show ?case using Cons.prems by (auto split: if_splits)
qed simp

lemma argmax_SomeD:
  "argmax f xs = Some m \<Longrightarrow> m \<in> set xs \<and> (\<forall>x \<in> set xs. f x \<le> f m)"
  using max_by_mem[of f "hd xs" "tl xs"] max_by_ge[of _ "hd xs" "tl xs" f]
  by (auto simp: argmax_def split: list.splits)

lemma argmin_SomeD:
  "argmin f xs = Some m \<Longrightarrow> m \<in> set xs \<and> (\<forall>x \<in> set xs. f m \<le> f x)"
  using min_by_mem[of f "hd xs" "tl xs"] min_by_le[of _ "hd xs" "tl xs" f]
  by (auto simp: argmin_def split: list.splits)

lemma argmax_None [simp]: "argmax f xs = None \<longleftrightarrow> xs = []"
  by (simp add: argmax_def split: list.splits)

lemma argmin_None [simp]: "argmin f xs = None \<longleftrightarrow> xs = []"
  by (simp add: argmin_def split: list.splits)

section \<open>Rounding\<close>

text \<open>\<open>round(x)\<close> is to the nearest integer, halves to the even one; \<open>round(x, n)\<close> scales by
  \<open>10 ^ n\<close> first.\<close>

definition round_half_even :: "real \<Rightarrow> int" where
  "round_half_even x =
     (let f = \<lfloor>x\<rfloor>; d = x - of_int f in
      if d < 1 / 2 then f else if d > 1 / 2 then f + 1 else if even f then f else f + 1)"

definition py_round :: "nat \<Rightarrow> real \<Rightarrow> real" where
  "py_round n x = of_int (round_half_even (x * 10 ^ n)) / 10 ^ n"

lemma round_half_even_bounds: "of_int (round_half_even x) - x \<le> 1 / 2 \<and> x - of_int (round_half_even x) \<le> 1 / 2"
proof -
  have *: "of_int \<lfloor>x\<rfloor> \<le> x" "x < of_int \<lfloor>x\<rfloor> + 1" by linarith+
  show ?thesis
    unfolding round_half_even_def Let_def using * by (simp; linarith)
qed

lemma round_half_even_int [simp]: "round_half_even (of_int i) = i"
  by (simp add: round_half_even_def Let_def)

lemma round_half_even_mono: "x \<le> y \<Longrightarrow> round_half_even x \<le> round_half_even y"
proof -
  assume le: "x \<le> y"
  show ?thesis
  proof (cases "\<lfloor>x\<rfloor> = \<lfloor>y\<rfloor>")
    case True
    with le show ?thesis by (auto simp: round_half_even_def Let_def)
  next
    case False
    with le have "\<lfloor>x\<rfloor> + 1 \<le> \<lfloor>y\<rfloor>" by (metis floor_mono order_le_less zless_imp_add1_zle)
    moreover have "round_half_even x \<le> \<lfloor>x\<rfloor> + 1" by (auto simp: round_half_even_def Let_def)
    moreover have "\<lfloor>y\<rfloor> \<le> round_half_even y" by (auto simp: round_half_even_def Let_def)
    ultimately show ?thesis by linarith
  qed
qed

lemma py_round_mono: "x \<le> y \<Longrightarrow> py_round n x \<le> py_round n y"
  by (auto simp: py_round_def intro!: divide_right_mono round_half_even_mono mult_right_mono)

lemma py_round_of_int [simp]: "py_round n (of_int i) = of_int i"
proof -
  have "of_int i * 10 ^ n = (of_int (i * 10 ^ n) :: real)" by simp
  then have "round_half_even (of_int i * 10 ^ n) = i * 10 ^ n"
    by (simp only: round_half_even_int)
  then show ?thesis by (simp add: py_round_def)
qed

lemma py_round_0 [simp]: "py_round n 0 = 0" and py_round_1 [simp]: "py_round n 1 = 1"
  using py_round_of_int[of n 0] py_round_of_int[of n 1] by simp_all

lemma py_round_nonneg: "0 \<le> x \<Longrightarrow> 0 \<le> py_round n x"
  using py_round_mono[of 0 x n] by simp

lemma py_round_le_1: "x \<le> 1 \<Longrightarrow> py_round n x \<le> 1"
  using py_round_mono[of x 1 n] by simp

lemma py_round_ge_minus1: "-1 \<le> x \<Longrightarrow> -1 \<le> py_round n x"
  using py_round_mono[of "-1" x n] py_round_of_int[of n "-1"] by simp

lemma py_round_error: "\<bar>py_round n x - x\<bar> \<le> 1 / (2 * 10 ^ n)"
proof -
  let ?k = "10 ^ n :: real"
  have k: "?k > 0" by simp
  have "\<bar>of_int (round_half_even (x * ?k)) - x * ?k\<bar> \<le> 1 / 2"
    using round_half_even_bounds[of "x * ?k"] unfolding abs_le_iff by linarith
  then have "\<bar>of_int (round_half_even (x * ?k)) - x * ?k\<bar> / ?k \<le> (1 / 2) / ?k"
    using k by (intro divide_right_mono) auto
  moreover have "py_round n x - x = (of_int (round_half_even (x * ?k)) - x * ?k) / ?k"
    by (simp add: py_round_def field_simps)
  ultimately show ?thesis by (simp add: abs_divide)
qed

section \<open>Splitting and joining strings\<close>

fun py_split :: "char \<Rightarrow> string \<Rightarrow> string list" where
  "py_split c [] = [[]]"
| "py_split c (x # xs) =
     (if x = c then [] # py_split c xs
      else (case py_split c xs of [] \<Rightarrow> [[x]] | p # ps \<Rightarrow> (x # p) # ps))"

fun py_join :: "string \<Rightarrow> string list \<Rightarrow> string" where
  "py_join sep [] = []"
| "py_join sep [p] = p"
| "py_join sep (p # ps) = p @ sep @ py_join sep ps"

lemma py_split_nonempty [simp]: "py_split c s \<noteq> []"
  by (induction s) (auto split: list.splits)

lemma py_join_split: "py_join [c] (py_split c s) = s"
proof (induction s)
  case (Cons x xs)
  then show ?case
    by (cases "py_split c xs") (auto, (metis append_Cons py_join.simps(2,3) neq_Nil_conv)+)
qed simp

lemma py_split_no_sep: "c \<notin> set s \<Longrightarrow> py_split c s = [s]"
  by (induction s) auto

lemma py_split_append: "c \<notin> set t \<Longrightarrow> py_split c (s @ c # t) = py_split c s @ [t]"
proof (induction s)
  case Nil
  then show ?case by (simp add: py_split_no_sep)
next
  case (Cons x xs)
  then show ?case by (cases "py_split c xs") (auto split: list.splits)
qed

section \<open>Trimming and case\<close>

definition is_space :: "char \<Rightarrow> bool" where
  "is_space c \<longleftrightarrow> c \<in> {CHR '' '', CHR 0x09, CHR 0x0A, CHR 0x0B, CHR 0x0C, CHR 0x0D, CHR 0x1C, CHR 0x1D, CHR 0x1E, CHR 0x1F}"

definition strip :: "string \<Rightarrow> string" where
  "strip s = rev (dropWhile is_space (rev (dropWhile is_space s)))"

definition rstrip :: "char \<Rightarrow> string \<Rightarrow> string" where
  "rstrip c s = rev (dropWhile (\<lambda>x. x = c) (rev s))"

definition starts_with :: "string \<Rightarrow> string \<Rightarrow> bool" where
  "starts_with p s = (take (length p) s = p)"

definition lower :: "string \<Rightarrow> string" where
  "lower s = List.map (\<lambda>c. if CHR ''A'' \<le> c \<and> c \<le> CHR ''Z'' then char_of (of_char c + 32 :: nat) else c) s"

section \<open>Sorting\<close>

lemma sort_key_sorted_wrt: "sorted_wrt (\<lambda>x y. f x \<le> f y) (sort_key f xs)"
  using sorted_sort_key[of f xs] by (simp add: sorted_wrt_map)

end
