(* ===== verification/Num_Lib.thy ===== *)
theory Num_Lib
  imports Py_Base
begin

text \<open>
  The functions of numpy and scipy that the engine calls, as a record of parameters: the code of
  those packages is not part of the repository, so the model is generic in them. Arrays themselves
  (creation, indexing, slicing, elementwise arithmetic, comparison) are lists of reals.

  A result that numpy documents as possibly NaN and that the engine tests (or compares, which is
  false for a NaN) has type \<open>real option\<close>, with \<open>None\<close> for NaN.

  The laws below state documented behaviour. They are hypotheses of the theorems that need them;
  \<open>ref_num\<close> is a concrete instance at which they hold, used by the witnesses.
\<close>

record numlib =
  np_median :: "vec \<Rightarrow> real"
  np_percentile :: "vec \<Rightarrow> real \<Rightarrow> real"
  np_mean :: "vec \<Rightarrow> real"
  np_std :: "vec \<Rightarrow> real"
  np_max :: "vec \<Rightarrow> real"
  np_min :: "vec \<Rightarrow> real"
  np_ptp :: "vec \<Rightarrow> real"
  np_polyfit1 :: "vec \<Rightarrow> vec \<Rightarrow> real \<times> real"
  np_corrcoef :: "vec \<Rightarrow> vec \<Rightarrow> real option"
  sp_skew :: "vec \<Rightarrow> real option"
  sp_pearsonr :: "vec \<Rightarrow> vec \<Rightarrow> real option"
  sp_spearmanr :: "vec \<Rightarrow> vec \<Rightarrow> real option"

text \<open>Both correlation coefficients lie in \<open>[-1, 1]\<close> (scipy documents the range).\<close>

definition corr_bounded :: "numlib \<Rightarrow> bool" where
  "corr_bounded np \<longleftrightarrow>
     (\<forall>a b r. sp_pearsonr np a b = Some r \<longrightarrow> \<bar>r\<bar> \<le> 1) \<and>
     (\<forall>a b r. sp_spearmanr np a b = Some r \<longrightarrow> \<bar>r\<bar> \<le> 1)"

text \<open>The median of a nonempty array lies between two of its elements.\<close>

definition median_between :: "numlib \<Rightarrow> bool" where
  "median_between np \<longleftrightarrow>
     (\<forall>xs. xs \<noteq> [] \<longrightarrow> (\<exists>lo \<in> set xs. \<exists>hi \<in> set xs. lo \<le> np_median np xs \<and> np_median np xs \<le> hi))"

lemma median_between_bounds:
  assumes "median_between np" and "xs \<noteq> []" and "\<And>x. x \<in> set xs \<Longrightarrow> a \<le> x \<and> x \<le> b"
  shows "a \<le> np_median np xs" and "np_median np xs \<le> b"
  using assms unfolding median_between_def by (meson order_trans)+

lemma median_between_const:
  "median_between np \<Longrightarrow> n > 0 \<Longrightarrow> np_median np (replicate n c) = c"
  using median_between_bounds[of np "replicate n c" c c] by (auto intro: antisym)

section \<open>A concrete instance for the witnesses\<close>

definition ref_mean :: "vec \<Rightarrow> real" where
  "ref_mean xs = sum_list xs / of_nat (length xs)"

definition ref_median :: "vec \<Rightarrow> real" where
  "ref_median xs = sort xs ! (length xs div 2)"

definition ref_pct :: "vec \<Rightarrow> real \<Rightarrow> real" where
  "ref_pct xs q = sort xs ! nat \<lfloor>of_nat (length xs - 1) * q / 100\<rfloor>"

definition ref_dev :: "vec \<Rightarrow> real" where
  "ref_dev xs = ref_mean (List.map (\<lambda>x. \<bar>x - ref_mean xs\<bar>) xs)"

definition ref_cov :: "vec \<Rightarrow> vec \<Rightarrow> real" where
  "ref_cov a b = sum_list (List.map2 (\<lambda>x y. (x - ref_mean a) * (y - ref_mean b)) a b)"

definition ref_slope :: "vec \<Rightarrow> vec \<Rightarrow> real" where
  "ref_slope t y = ref_cov t y / ref_cov t t"

definition ref_corr :: "vec \<Rightarrow> vec \<Rightarrow> real option" where
  "ref_corr a b =
     (let d = max (ref_cov a a) (ref_cov b b)
      in if d = 0 then None else Some (max (-1) (min 1 (ref_cov a b / d))))"

definition ref_num :: numlib where
  "ref_num = \<lparr>np_median = ref_median, np_percentile = ref_pct, np_mean = ref_mean, np_std = ref_dev,
     np_max = (\<lambda>xs. fold max xs (hd xs)), np_min = (\<lambda>xs. fold min xs (hd xs)),
     np_ptp = (\<lambda>xs. fold max xs (hd xs) - fold min xs (hd xs)),
     np_polyfit1 = (\<lambda>t y. (ref_slope t y, ref_mean y - ref_slope t y * ref_mean t)),
     np_corrcoef = ref_corr, sp_skew = (\<lambda>_. Some 0), sp_pearsonr = ref_corr,
     sp_spearmanr = ref_corr\<rparr>"

lemma ref_num_corr_bounded: "corr_bounded ref_num"
  by (auto simp: corr_bounded_def ref_num_def ref_corr_def Let_def split: if_splits)

lemma ref_num_median_between: "median_between ref_num"
proof -
  have "ref_median xs \<in> set xs" if "xs \<noteq> []" for xs
    using that nth_mem[of "length xs div 2" "sort xs"] by (simp add: ref_median_def)
  then show ?thesis by (force simp: median_between_def ref_num_def)
qed

text \<open>A variant that is cheap to evaluate: the first element lies between two elements, too.\<close>

definition quick_num :: numlib where
  "quick_num = ref_num\<lparr>np_median := hd\<rparr>"

lemma quick_num_corr_bounded: "corr_bounded quick_num"
  using ref_num_corr_bounded by (simp add: corr_bounded_def quick_num_def)

lemma quick_num_median_between: "median_between quick_num"
  unfolding median_between_def quick_num_def by (simp, metis hd_in_set order_refl)

end
