(* ===== verification/Detectors.thy ===== *)
theory Detectors
  imports Num_Lib
begin

text \<open>
  The resource agent of \<open>src/correlation/engine/detectors.py\<close>: the EWMA baseline, the robust
  sigma, the two-sided CUSUM with its backtracking, the shape classifier and the linear
  forecaster. The CUSUM's accumulators are the arguments of \<open>cusum_loop\<close>.
\<close>

definition DT_S :: real where "DT_S = 5"

text \<open>The literal \<open>1e-9\<close>, below which the engine takes a slope or a deviation for zero.\<close>

definition TINY :: real where "TINY = 1 / 10 ^ 9"

section \<open>Baseline and scale\<close>

fun ewma_from :: "real \<Rightarrow> real \<Rightarrow> vec \<Rightarrow> vec" where
  "ewma_from alpha prev [] = []"
| "ewma_from alpha prev (x # xs) =
     (let y = alpha * x + (1 - alpha) * prev in y # ewma_from alpha y xs)"

definition ewma :: "real \<Rightarrow> vec \<Rightarrow> vec outcome" where
  "ewma alpha x = (case x of [] \<Rightarrow> Raise IndexError | x0 # xs \<Rightarrow> Ret (x0 # ewma_from alpha x0 xs))"

definition robust_sigma :: "numlib \<Rightarrow> vec \<Rightarrow> real" where
  "robust_sigma np x =
     (let med = np_median np x; mad = np_median np (List.map (\<lambda>v. \<bar>v - med\<bar>) x)
      in max (1.4826 * mad) (1 / 10 ^ 6))"

section \<open>CUSUM\<close>

datatype direction = Up | Down

record onset =
  o_idx :: nat
  o_dir :: direction
  o_zpeak :: real

fun backtrack :: "vec \<Rightarrow> nat \<Rightarrow> real \<Rightarrow> nat" where
  "backtrack z 0 s = 0"
| "backtrack z (Suc i) s = (if s * z ! i > 1 / 2 then backtrack z i s else Suc i)"

fun cusum_loop :: "real \<Rightarrow> real \<Rightarrow> vec \<Rightarrow> nat list \<Rightarrow> real \<Rightarrow> real \<Rightarrow> nat \<Rightarrow> onset list" where
  "cusum_loop k h z [] gp gn armed_at = []"
| "cusum_loop k h z (i # js) gp gn armed_at =
     (let gp' = max 0 (gp + z ! i - k);
          gn' = max 0 (gn - z ! i - k)
      in if gp' > h \<and> i \<ge> armed_at then
           \<lparr>o_idx = backtrack z i 1, o_dir = Up, o_zpeak = z ! i\<rparr> # cusum_loop k h z js 0 0 (i + 3)
         else if gn' > h \<and> i \<ge> armed_at then
           \<lparr>o_idx = backtrack z i (-1), o_dir = Down, o_zpeak = z ! i\<rparr> # cusum_loop k h z js 0 0 (i + 3)
         else cusum_loop k h z js gp' gn' armed_at)"

text \<open>The standardised one-step-ahead residual \<open>z\<close>; \<open>ewma\<close> cannot raise on the nonempty arrays
  it is called with.\<close>

definition residual_z :: "numlib \<Rightarrow> nat \<Rightarrow> vec \<Rightarrow> vec" where
  "residual_z np warmup x =
     (case ewma (3 / 10) x of
        Ret base \<Rightarrow>
          (let resid = List.map2 (-) x (take 1 base @ butlast base);
               sig_n = min (max (warmup * 2) (length x div 3)) 60;
               sigma = robust_sigma np (take sig_n resid)
           in List.map (\<lambda>v. v / sigma) resid)
      | Raise e \<Rightarrow> [] | Diverge \<Rightarrow> [])"

definition cusum :: "numlib \<Rightarrow> real \<Rightarrow> real \<Rightarrow> nat \<Rightarrow> vec \<Rightarrow> onset list" where
  "cusum np k h warmup x =
     (if length x < warmup + 4 then []
      else (let z = residual_z np warmup x in cusum_loop k h z [warmup..<length z] 0 0 warmup))"

text \<open>The call with the default arguments, the only one the engine makes.\<close>

definition cusum_onsets :: "numlib \<Rightarrow> vec \<Rightarrow> onset list" where
  "cusum_onsets np x = cusum np (1 / 2) 5 12 x"

section \<open>Shape classification and forecast\<close>

datatype shape = Saturation | Burst | Leak | Flap | Shift

fun count_changes :: "'a list \<Rightarrow> nat" where
  "count_changes (a # b # xs) = (if a \<noteq> b then 1 else 0) + count_changes (b # xs)"
| "count_changes _ = 0"

definition time_axis :: "nat \<Rightarrow> vec" where
  "time_axis n = List.map of_nat [0..<n]"

definition classify :: "numlib \<Rightarrow> vec \<Rightarrow> nat \<Rightarrow> real option \<Rightarrow> shape" where
  "classify np x onset_idx cap =
     (let seg = drop onset_idx x in
      if length seg < 6 then Shift
      else
       (let pre = np_median np (take (max onset_idx 1) x);
            sigma_pre = robust_sigma np (if onset_idx > 8 then take onset_idx x else x);
            tail = py_tail (max 3 (length seg div 4)) seg;
            slope = fst (np_polyfit1 np (time_axis (length seg)) seg)
        in if (case cap of None \<Rightarrow> False
               | Some c \<Rightarrow> np_median np (py_tail (max 3 (length seg div 3)) seg) \<ge> 0.92 * c) then Saturation
           else
            (let excursion = np_max np (List.map (\<lambda>v. \<bar>v - pre\<bar>) seg);
                 came_back = \<bar>np_median np tail - pre\<bar> < 1.5 * sigma_pre
             in if came_back \<and> excursion > 3 * sigma_pre then Burst
                else if slope > 0 \<and> last seg - hd seg > 2 * sigma_pre then Leak
                else
                 (let mid = (np_max np seg + np_min np seg) / 2;
                      crossings = count_changes (List.map (\<lambda>v. sgn (v - mid)) seg)
                  in if crossings \<ge> 4 \<and> np_ptp np seg > 4 * sigma_pre then Flap else Shift))))"

text \<open>\<open>np.polyfit\<close> raises a \<open>TypeError\<close> on an empty array.\<close>

definition forecast_to_limit :: "numlib \<Rightarrow> vec \<Rightarrow> real \<Rightarrow> nat \<Rightarrow> real option outcome" where
  "forecast_to_limit np x limit tail =
     (let seg = (if length x \<ge> tail then py_tail tail x else x) in
      if seg = [] then Raise TypeError
      else
       (let t = time_axis (length seg);
            slope = fst (np_polyfit1 np t seg);
            fit_r = np_corrcoef np t seg
        in if slope \<le> TINY \<or> (case fit_r of None \<Rightarrow> False | Some r \<Rightarrow> r < 1 / 2) then Ret None
           else
            (let samples_left = (limit - last seg) / slope;
                 eta_s = samples_left * DT_S
             in Ret (if samples_left < 0 \<or> eta_s > 3600 then None else Some eta_s))))"

section \<open>Lemmas: baseline and residual\<close>

lemma length_ewma_from [simp]: "length (ewma_from a p xs) = length xs"
  by (induction xs arbitrary: p) (auto simp: Let_def)

lemma ewma_from_Nil [simp]: "ewma_from a p xs = [] \<longleftrightarrow> xs = []"
  by (cases xs) (auto simp: Let_def)

lemma ewma_total: "x \<noteq> [] \<Longrightarrow> \<exists>base. ewma a x = Ret base \<and> length base = length x"
  by (cases x) (auto simp: ewma_def)

lemma ewma_from_range:
  assumes "0 \<le> a" "a \<le> 1" "lo \<le> p" "p \<le> hi" "\<And>x. x \<in> set xs \<Longrightarrow> lo \<le> x \<and> x \<le> hi"
    and "y \<in> set (ewma_from a p xs)"
  shows "lo \<le> y \<and> y \<le> hi"
  using assms(3-)
proof (induction xs arbitrary: p)
  case (Cons x xs)
  let ?y = "a * x + (1 - a) * p"
  have x: "lo \<le> x" "x \<le> hi" using Cons.prems(3) by auto
  have y: "lo \<le> ?y" "?y \<le> hi"
    using convex_bound_le[of x hi p a "1 - a"] convex_bound_le[of "-x" "-lo" "-p" a "1 - a"] x Cons.prems assms(1,2)
    by (auto simp: algebra_simps)
  show ?case using Cons.IH[OF y] Cons.prems y by (auto simp: Let_def)
qed simp

lemma ewma_range:
  assumes "0 \<le> a" "a \<le> 1" "ewma a x = Ret base" "\<And>v. v \<in> set x \<Longrightarrow> lo \<le> v \<and> v \<le> hi" "y \<in> set base"
  shows "lo \<le> y \<and> y \<le> hi"
  using assms ewma_from_range[of a lo "hd x" hi "tl x" y] by (auto simp: ewma_def split: list.splits)

lemma robust_sigma_pos: "robust_sigma np x > 0"
  by (auto simp: robust_sigma_def Let_def less_max_iff_disj)

lemma length_residual_z: "x \<noteq> [] \<Longrightarrow> length (residual_z np w x) = length x"
  by (cases x) (auto simp: residual_z_def ewma_def Let_def)

section \<open>Lemmas: backtracking and alarms\<close>

lemma backtrack_le: "backtrack z i s \<le> i"
  by (induction i) (auto intro: le_SucI)

lemma backtrack_run: "backtrack z i s \<le> m \<Longrightarrow> m < i \<Longrightarrow> s * z ! m > 1 / 2"
  by (induction i) (auto simp: less_Suc_eq split: if_splits)

lemma backtrack_stops: "backtrack z i s > 0 \<Longrightarrow> \<not> s * z ! (backtrack z i s - 1) > 1 / 2"
  by (induction i) (auto split: if_splits)

text \<open>One iteration of the loop: an upward alarm, a downward alarm, or neither.\<close>

lemma cusum_step:
  obtains (up) "max 0 (gp + z ! i - k) > h" "i \<ge> a"
      "cusum_loop k h z (i # js) gp gn a =
         \<lparr>o_idx = backtrack z i 1, o_dir = Up, o_zpeak = z ! i\<rparr> # cusum_loop k h z js 0 0 (i + 3)"
  | (down) "max 0 (gn - z ! i - k) > h" "i \<ge> a"
      "cusum_loop k h z (i # js) gp gn a =
         \<lparr>o_idx = backtrack z i (-1), o_dir = Down, o_zpeak = z ! i\<rparr> # cusum_loop k h z js 0 0 (i + 3)"
  | (none) "i \<ge> a \<Longrightarrow> max 0 (gp + z ! i - k) \<le> h \<and> max 0 (gn - z ! i - k) \<le> h"
      "cusum_loop k h z (i # js) gp gn a =
         cusum_loop k h z js (max 0 (gp + z ! i - k)) (max 0 (gn - z ! i - k)) a"
proof -
  let ?up = "max 0 (gp + z ! i - k) > h \<and> i \<ge> a" and ?dn = "max 0 (gn - z ! i - k) > h \<and> i \<ge> a"
  consider ?up | "\<not> ?up" ?dn | "\<not> ?up" "\<not> ?dn" by blast
  then show thesis
  proof cases
    case 1
    then show thesis by (intro that(1)) (simp_all add: Let_def)
  next
    case 2
    then show thesis by (intro that(2)) (simp_all only: cusum_loop.simps Let_def if_True if_False simp_thms)
  next
    case 3
    have eq: "cusum_loop k h z (i # js) gp gn a =
        cusum_loop k h z js (max 0 (gp + z ! i - k)) (max 0 (gn - z ! i - k)) a"
      unfolding cusum_loop.simps Let_def using 3 by (simp only: if_False)
    show thesis by (rule that(3)[OF _ eq]) (use 3 in linarith)
  qed
qed

lemma cusum_loop_quiet:
  "\<lbrakk>\<And>i. i \<in> set js \<Longrightarrow> \<bar>z ! i\<bar> \<le> k; h \<ge> 0; gp \<le> 0; gn \<le> 0\<rbrakk> \<Longrightarrow> cusum_loop k h z js gp gn a = []"
proof (induction js arbitrary: gp gn)
  case (Cons i js)
  have "\<bar>z ! i\<bar> \<le> k" using Cons.prems(1) by simp
  then have "max 0 (gp + z ! i - k) = 0" "max 0 (gn - z ! i - k) = 0"
    using Cons.prems(3,4) by linarith+
  with Cons show ?case by (simp add: Let_def)
qed simp

declare cusum_loop.simps(2) [simp del]

lemma cusum_loop_onset:
  "oo \<in> set (cusum_loop k h z js gp gn a) \<Longrightarrow>
   \<exists>i \<in> set js. o_zpeak oo = z ! i \<and> o_idx oo = backtrack z i (case o_dir oo of Up \<Rightarrow> 1 | Down \<Rightarrow> -1)"
proof (induction js arbitrary: gp gn a)
  case (Cons i js)
  show ?case
    by (rule cusum_step[where gp = gp and gn = gn and z = z and i = i and k = k and h = h and a = a and js = js])
      (use Cons in auto)
qed simp

lemma cusum_loop_count:
  "length (cusum_loop k h z [i..<n] gp gn a) * 3 \<le> n - max i a + 2"
proof (induction "n - i" arbitrary: i gp gn a)
  case 0
  then show ?case by simp
next
  case (Suc d)
  then have i: "i < n" and d: "d = n - Suc i" by auto
  have up: "[i..<n] = i # [Suc i..<n]" using i by (simp add: upt_conv_Cons)
  have IH: "length (cusum_loop k h z [Suc i..<n] gp gn a) * 3 \<le> n - max (Suc i) a + 2" for gp gn a
    by (rule Suc(1)[OF d])
  have alarm: "Suc (length (cusum_loop k h z [Suc i..<n] 0 0 (i + 3))) * 3 \<le> n - i + 2"
    using IH[of 0 0 "i + 3"] i by arith
  show ?case
    unfolding up
  proof (rule cusum_step[where gp = gp and gn = gn and z = z and i = i and k = k and h = h and a = a and js = "[Suc i..<n]"], goal_cases)
    case 1
    then show ?case using alarm by (simp only: length_Cons max_absorb1)
  next
    case 2
    then show ?case using alarm by (simp only: length_Cons max_absorb1)
  next
    case 3
    have "n - max (Suc i) a \<le> n - max i a" by simp
    with 3(2) show ?case using IH[of "max 0 (gp + z ! i - k)" "max 0 (gn - z ! i - k)" a] by simp
  qed
qed

text \<open>The reference reading of the accumulators: with no alarm so far, they are the largest excess
  of a run of samples ending here over the allowance \<open>k\<close>. No alarm is raised exactly when no run
  of consecutive samples exceeds it by more than \<open>h\<close>, in either direction.\<close>

definition run_excess :: "real \<Rightarrow> vec \<Rightarrow> real \<Rightarrow> nat \<Rightarrow> nat \<Rightarrow> real" where
  "run_excess k z s a b = (\<Sum>m = a..<b. s * z ! m - k)"

lemma run_excess_Suc: "a \<le> b \<Longrightarrow> run_excess k z s a (Suc b) = run_excess k z s a b + s * z ! b - k"
  by (simp add: run_excess_def)

lemma run_excess_refl [simp]: "run_excess k z s a a = 0"
  by (simp add: run_excess_def)

text \<open>\<open>acc_is k z s w i g\<close>: the accumulator \<open>g\<close> is the largest excess over runs that start in \<open>[w, i]\<close>.\<close>

definition acc_is :: "real \<Rightarrow> vec \<Rightarrow> real \<Rightarrow> nat \<Rightarrow> nat \<Rightarrow> real \<Rightarrow> bool" where
  "acc_is k z s w i g \<longleftrightarrow>
     (\<forall>a \<in> {w..i}. run_excess k z s a i \<le> g) \<and> (\<exists>a \<in> {w..i}. g = run_excess k z s a i)"

lemma acc_is_start: "acc_is k z s w w 0"
  by (simp add: acc_is_def)

lemma acc_is_step:
  assumes acc: "acc_is k z s w i g" and w: "w \<le> i"
  shows "acc_is k z s w (Suc i) (max 0 (g + s * z ! i - k))"
proof -
  let ?g = "max 0 (g + s * z ! i - k)"
  have le: "run_excess k z s a (Suc i) \<le> ?g" if "a \<in> {w..Suc i}" for a
  proof (cases "a = Suc i")
    case False
    then have a: "a \<in> {w..i}" using that by auto
    then have "run_excess k z s a i \<le> g" using acc by (simp add: acc_is_def)
    then show ?thesis using a by (simp add: run_excess_Suc)
  qed simp
  obtain a where a: "a \<in> {w..i}" "g = run_excess k z s a i" using acc by (auto simp: acc_is_def)
  have "\<exists>a \<in> {w..Suc i}. ?g = run_excess k z s a (Suc i)"
  proof (cases "g + s * z ! i - k \<ge> 0")
    case True
    then show ?thesis using a by (intro bexI[of _ a]) (auto simp: run_excess_Suc)
  next
    case False
    then show ?thesis using w by (intro bexI[of _ "Suc i"]) auto
  qed
  with le show ?thesis by (simp add: acc_is_def)
qed

lemma cusum_silent_iff:
  assumes "w \<le> i" "i \<le> n" "acc_is k z 1 w i gp" "acc_is k z (-1) w i gn" "h \<ge> 0"
  shows "cusum_loop k h z [i..<n] gp gn w = [] \<longleftrightarrow>
    (\<forall>b. i < b \<and> b \<le> n \<longrightarrow> (\<forall>a. w \<le> a \<and> a \<le> b \<longrightarrow>
       run_excess k z 1 a b \<le> h \<and> run_excess k z (-1) a b \<le> h))"
  using assms
proof (induction "n - i" arbitrary: i gp gn)
  case 0
  then show ?case by auto
next
  case (Suc d)
  let ?gp = "max 0 (gp + z ! i - k)" and ?gn = "max 0 (gn - z ! i - k)"
  let ?ok = "\<lambda>b. \<forall>a. w \<le> a \<and> a \<le> b \<longrightarrow> run_excess k z 1 a b \<le> h \<and> run_excess k z (-1) a b \<le> h"
  have i: "i < n" and d: "d = n - Suc i" using Suc.hyps(2) by auto
  have acc: "acc_is k z 1 w (Suc i) ?gp" "acc_is k z (-1) w (Suc i) ?gn"
    using acc_is_step[OF Suc.prems(3,1)] acc_is_step[OF Suc.prems(4,1)] by simp_all
  have here: "?gp \<le> h \<and> ?gn \<le> h \<longleftrightarrow> ?ok (Suc i)"
  proof
    assume *: "?gp \<le> h \<and> ?gn \<le> h"
    show "?ok (Suc i)"
      using acc order_trans[OF _ *[THEN conjunct1]] order_trans[OF _ *[THEN conjunct2]]
      by (simp add: acc_is_def)
  next
    assume ok: "?ok (Suc i)"
    obtain a b where "a \<in> {w..Suc i}" "?gp = run_excess k z 1 a (Suc i)"
      "b \<in> {w..Suc i}" "?gn = run_excess k z (-1) b (Suc i)"
      using acc unfolding acc_is_def by blast
    with ok show "?gp \<le> h \<and> ?gn \<le> h" by simp
  qed
  have IH: "cusum_loop k h z [Suc i..<n] ?gp ?gn w = [] \<longleftrightarrow> (\<forall>b. Suc i < b \<and> b \<le> n \<longrightarrow> ?ok b)"
    using Suc.hyps(1)[OF d] acc i Suc.prems by simp
  have split: "(\<forall>b. i < b \<and> b \<le> n \<longrightarrow> P b) \<longleftrightarrow> P (Suc i) \<and> (\<forall>b. Suc i < b \<and> b \<le> n \<longrightarrow> P b)"
    for P
  proof (intro iffI allI impI; (elim conjE)?)
    fix b assume P: "P (Suc i)" "\<forall>b. Suc i < b \<and> b \<le> n \<longrightarrow> P b" and b: "i < b" "b \<le> n"
    show "P b" by (cases "b = Suc i") (use P b in auto)
  qed (use i in auto)
  have up: "[i..<n] = i # [Suc i..<n]" using i by (simp add: upt_conv_Cons)
  show ?case
    unfolding up
  proof (rule cusum_step[where gp = gp and gn = gn and z = z and i = i and k = k and h = h and a = w and js = "[Suc i..<n]"], goal_cases)
    case 1
    then show ?case using here split[of ?ok] by auto
  next
    case 2
    then show ?case using here split[of ?ok] by auto
  next
    case 3
    then show ?case using here split[of ?ok] IH Suc.prems(1) by simp
  qed
qed

text \<open>A quiet signal raises no alarm, and an alarm needs a sample beyond the allowance.\<close>

lemma residual_z_flat:
  "n > 0 \<Longrightarrow> z \<in> set (residual_z np w (replicate n c)) \<Longrightarrow> z = 0"
proof -
  have flat: "ewma_from (3 / 10) c (replicate m c) = replicate m c" for m
    by (induction m) (auto simp: Let_def)
  have zip0: "List.map2 (-) (replicate m c) (replicate m c) = replicate m 0" for m :: nat
    by (simp add: zip_replicate)
  assume n: "n > 0" and z: "z \<in> set (residual_z np w (replicate n c))"
  from n obtain m where m: "n = Suc m" by (cases n) auto
  have base: "ewma (3 / 10) (replicate n c) = Ret (replicate n c)"
    by (simp add: m ewma_def flat)
  have "take 1 (replicate n c) = [c]" "butlast (replicate n c) = replicate m c"
    by (simp_all add: m butlast_conv_take take_replicate del: replicate_Suc) (simp add: min_def)
  then have "take 1 (replicate n c) @ butlast (replicate n c) = replicate n c"
    by (simp add: m)
  then show "z = 0" using z n by (auto simp: residual_z_def base Let_def zip0)
qed

section \<open>Properties\<close>

lemma cusum_onsets_loop:
  "length x \<ge> 16 \<Longrightarrow> cusum_onsets np x =
     cusum_loop (1 / 2) 5 (residual_z np 12 x) [12..<length x] 0 0 12"
  using length_residual_z[of x np 12] by (cases "x = []") (auto simp: cusum_onsets_def cusum_def)

lemma cusum_onsets_short: "length x < 16 \<Longrightarrow> cusum_onsets np x = []"
  by (simp add: cusum_onsets_def cusum_def)

lemma cusum_onsets_mem:
  assumes "oo \<in> set (cusum_onsets np x)"
  shows "\<exists>i. 12 \<le> i \<and> i < length x \<and> o_zpeak oo = residual_z np 12 x ! i \<and>
    o_idx oo = backtrack (residual_z np 12 x) i (case o_dir oo of Up \<Rightarrow> 1 | Down \<Rightarrow> -1)"
proof -
  have "length x \<ge> 16" using assms cusum_onsets_short[of x np] by (cases "length x < 16") auto
  with assms have "oo \<in> set (cusum_loop (1 / 2) 5 (residual_z np 12 x) [12..<length x] 0 0 12)"
    by (simp add: cusum_onsets_loop)
  from cusum_loop_onset[OF this] show ?thesis by (auto intro: exI)
qed

lemma cusum_onset_idx_less: "oo \<in> set (cusum_onsets np x) \<Longrightarrow> o_idx oo < length x"
  by (drule cusum_onsets_mem) (auto intro: le_less_trans[OF backtrack_le])

lemma cusum_onsets_flat: "cusum_onsets np (replicate n c) = []"
proof (cases "n < 16")
  case False
  have "\<bar>residual_z np 12 (replicate n c) ! i\<bar> \<le> 1 / 2" if "i \<in> set [12..<n]" for i
  proof -
    have "i < length (residual_z np 12 (replicate n c))"
      using that False length_residual_z[of "replicate n c" np 12] by simp
    then have "residual_z np 12 (replicate n c) ! i \<in> set (residual_z np 12 (replicate n c))"
      by (rule nth_mem)
    then have "residual_z np 12 (replicate n c) ! i = 0"
      by (rule residual_z_flat[rotated]) (use False in simp)
    then show ?thesis by simp
  qed
  then have "cusum_loop (1 / 2) 5 (residual_z np 12 (replicate n c)) [12..<n] 0 0 12 = []"
    by (intro cusum_loop_quiet) auto
  then show ?thesis using False cusum_onsets_loop[of "replicate n c" np] by simp
qed (simp add: cusum_onsets_short)

text \<open>C24. The CUSUM detector is silent exactly when the series is too short to judge, or no run of
  consecutive standardised residuals after the warm-up exceeds its allowance of half a sigma per
  sample by more than five sigma, upwards or downwards.\<close>

theorem cusum_silent_exactly:
  fixes np x
  defines "z \<equiv> residual_z np 12 x"
  shows "cusum_onsets np x = [] \<longleftrightarrow>
    length x < 16 \<or>
    (\<forall>a b. 12 \<le> a \<and> a < b \<and> b \<le> length x \<longrightarrow>
      (\<Sum>m = a..<b. z ! m - 1 / 2) \<le> 5 \<and> (\<Sum>m = a..<b. - z ! m - 1 / 2) \<le> 5)"
proof (cases "length x < 16")
  case False
  have ex: "run_excess (1 / 2) z 1 a b = (\<Sum>m = a..<b. z ! m - 1 / 2)"
    "run_excess (1 / 2) z (-1) a b = (\<Sum>m = a..<b. - z ! m - 1 / 2)" for a b
    by (simp_all add: run_excess_def)
  have "cusum_onsets np x = [] \<longleftrightarrow>
      (\<forall>b. 12 < b \<and> b \<le> length x \<longrightarrow> (\<forall>a. 12 \<le> a \<and> a \<le> b \<longrightarrow>
        run_excess (1 / 2) z 1 a b \<le> 5 \<and> run_excess (1 / 2) z (-1) a b \<le> 5))"
    unfolding z_def cusum_onsets_loop[OF leI[OF False]]
    by (rule cusum_silent_iff) (use False acc_is_start in auto)
  also have "\<dots> \<longleftrightarrow> (\<forall>a b. 12 \<le> a \<and> a < b \<and> b \<le> length x \<longrightarrow>
        run_excess (1 / 2) z 1 a b \<le> 5 \<and> run_excess (1 / 2) z (-1) a b \<le> 5)"
    (is "?l \<longleftrightarrow> ?r")
  proof
    assume ?l then show ?r by (meson le_less_trans less_imp_le)
  next
    assume r: ?r
    show ?l
    proof (intro allI impI)
      fix b a assume "12 < b \<and> b \<le> length x" "12 \<le> a \<and> a \<le> b"
      then show "run_excess (1 / 2) z 1 a b \<le> 5 \<and> run_excess (1 / 2) z (-1) a b \<le> 5"
        using r by (cases "a = b") auto
    qed
  qed
  finally show ?thesis using False by (simp add: ex)
qed (simp add: cusum_onsets_short)

theorem cusum_silent_exactly_witness:
  "cusum_onsets quick_num (replicate 20 3) = [] \<and>
   cusum_onsets quick_num (replicate 13 0 @ [9, 9, 9, 9]) \<noteq> []"
proof -
  let ?x = "replicate 13 0 @ [9, 9, 9, 9] :: vec"
  have "(\<Sum>m = 13..<14. residual_z quick_num 12 ?x ! m - 1 / 2) > 5"
    by code_simp
  then have "\<not> (\<forall>a b. 12 \<le> a \<and> a < b \<and> b \<le> length ?x \<longrightarrow>
      (\<Sum>m = a..<b. residual_z quick_num 12 ?x ! m - 1 / 2) \<le> 5 \<and>
      (\<Sum>m = a..<b. - residual_z quick_num 12 ?x ! m - 1 / 2) \<le> 5)"
    by (intro notI) (drule spec[of _ 13], drule spec[of _ 14], simp)
  then have "cusum_onsets quick_num ?x \<noteq> []"
    by (subst cusum_silent_exactly) simp
  then show ?thesis by (simp add: cusum_onsets_flat)
qed

text \<open>C25. Every onset is raised at an alarm sample after the warm-up and backtracked from it: the
  reported index is not after the alarm, every sample between them deviates in the alarm's
  direction by more than half a sigma, the sample before does not, and the reported peak is the
  alarm's residual. At most one onset is reported per three samples.\<close>

theorem cusum_onset_shape:
  fixes np x
  defines "z \<equiv> residual_z np 12 x"
  assumes "oo \<in> set (cusum_onsets np x)"
  defines "s \<equiv> (case o_dir oo of Up \<Rightarrow> 1 | Down \<Rightarrow> -1)"
  shows "\<exists>i. 12 \<le> i \<and> i < length x \<and> o_idx oo \<le> i \<and> o_zpeak oo = z ! i \<and>
      (\<forall>m. o_idx oo \<le> m \<and> m < i \<longrightarrow> s * z ! m > 1 / 2) \<and>
      (o_idx oo > 0 \<longrightarrow> s * z ! (o_idx oo - 1) \<le> 1 / 2) \<and>
      3 * length (cusum_onsets np x) \<le> length x - 10"
proof -
  from cusum_onsets_mem[OF assms(2)] obtain i where
    i: "12 \<le> i" "i < length x" "o_zpeak oo = z ! i" "o_idx oo = backtrack z i s"
    by (auto simp: z_def s_def)
  have "length x \<ge> 16" using assms(2) cusum_onsets_short[of x np] by (cases "length x < 16") auto
  then have "3 * length (cusum_onsets np x) \<le> length x - 10"
    using cusum_loop_count[of "1 / 2" 5 "residual_z np 12 x" 12 "length x" 0 0 12]
    by (simp add: cusum_onsets_loop)
  then show ?thesis
    using i backtrack_le[of z i s] backtrack_run[of z i s] backtrack_stops[of z i s]
    by (intro exI[of _ i]) (auto simp: not_less)
qed

theorem cusum_onset_shape_witness:
  "\<exists>oo i. oo \<in> set (cusum_onsets quick_num (replicate 13 0 @ [9, 9, 9, 9])) \<and>
     12 \<le> i \<and> i < 17 \<and> o_idx oo \<le> i"
proof -
  let ?x = "replicate 13 0 @ [9, 9, 9, 9] :: vec"
  have "cusum_onsets quick_num ?x \<noteq> []" by code_simp
  then obtain oo where "oo \<in> set (cusum_onsets quick_num ?x)" by (metis last_in_set)
  with cusum_onset_shape[OF this] show ?thesis by auto
qed

text \<open>A forecast is sound: when the forecaster returns an ETA, the fitted slope is really
  rising, the ETA lies between now and one hour, and the line through the last sample with that
  slope meets the limit exactly then. It raises only on an empty series.\<close>

theorem forecast_hits_limit:
  assumes "forecast_to_limit np x limit tail = Ret (Some eta)"
  shows "\<exists>seg slope. seg \<noteq> [] \<and> seg = (if length x \<ge> tail then py_tail tail x else x) \<and>
     slope = fst (np_polyfit1 np (time_axis (length seg)) seg) \<and> slope > TINY \<and>
     0 \<le> eta \<and> eta \<le> 3600 \<and> last seg + slope * (eta / DT_S) = limit"
proof -
  define seg where "seg = (if length x \<ge> tail then py_tail tail x else x)"
  define slope where "slope = fst (np_polyfit1 np (time_axis (length seg)) seg)"
  from assms have ne: "seg \<noteq> []" and pos: "slope > TINY"
    and eta: "eta = (limit - last seg) / slope * DT_S" "(limit - last seg) / slope \<ge> 0" "eta \<le> 3600"
    by (auto simp: forecast_to_limit_def Let_def seg_def[symmetric] slope_def[symmetric] not_le not_less
        split: if_splits)
  have "slope > 0" using pos by (rule less_trans[rotated]) (simp add: TINY_def)
  then have "slope * (eta / DT_S) = limit - last seg" by (simp add: eta(1) DT_S_def)
  then have "last seg + slope * (eta / DT_S) = limit" by simp
  moreover have "eta \<ge> 0" unfolding eta(1) DT_S_def by (rule mult_nonneg_nonneg[OF eta(2)]) simp
  ultimately show ?thesis using ne pos eta(3) seg_def slope_def by blast
qed

theorem forecast_hits_limit_witness:
  "\<exists>seg slope. seg \<noteq> [] \<and> slope > TINY \<and> last seg + slope * (20 / DT_S) = (10::real)"
proof -
  have "forecast_to_limit ref_num [1, 2, 3, 4, 5, 6] 10 24 = Ret (Some 20)" by code_simp
  from forecast_hits_limit[OF this] show ?thesis by blast
qed

end
