(* ===== verification/Lagcorr.thy ===== *)
theory Lagcorr
  imports Detectors
begin

text \<open>
  The lagged cross-correlation of \<open>src/correlation/engine/lagcorr.py\<close>. Lags are in seconds;
  a profile is the dictionary from lag to correlation, in the order of \<open>LAGS_S\<close>.
  The correlation coefficients are scipy's and come from the parameter record; scipy raises a
  \<open>ValueError\<close> on arrays of different lengths, which the model keeps.
\<close>

definition LAGS_S :: "nat list" where "LAGS_S = [0, 5, 15, 30, 60, 120]"

definition znorm :: "numlib \<Rightarrow> vec \<Rightarrow> vec" where
  "znorm np x =
     (let sd = np_std np x
      in List.map (\<lambda>v. (v - np_mean np x) / (if sd > TINY then sd else 1)) x)"

definition corr_at_lag :: "numlib \<Rightarrow> vec \<Rightarrow> vec \<Rightarrow> nat \<Rightarrow> real outcome" where
  "corr_at_lag np src dst lag_samples =
     (let a = (if lag_samples > 0 then take (length src - lag_samples) src else src);
          b = (if lag_samples > 0 then drop lag_samples dst else dst);
          heavy = (\<lambda>v. case sp_skew np v of None \<Rightarrow> False | Some k \<Rightarrow> \<bar>k\<bar> > 2)
      in if length a < 12 \<or> np_std np a < TINY \<or> np_std np b < TINY then Ret 0
         else if length a \<noteq> length b then Raise ValueError
         else (case (if heavy a \<or> heavy b then sp_spearmanr np a b else sp_pearsonr np a b) of
                 None \<Rightarrow> Ret 0 | Some r \<Rightarrow> Ret r))"

definition lag_samples :: "nat \<Rightarrow> nat" where
  "lag_samples lag = nat (round_half_even (of_nat lag / DT_S))"

type_synonym profile = "(nat, real) dict"

definition lag_profile :: "numlib \<Rightarrow> vec \<Rightarrow> vec \<Rightarrow> profile outcome" where
  "lag_profile np src dst =
     omap (\<lambda>lag. obind (corr_at_lag np (znorm np src) (znorm np dst) (lag_samples lag)) (\<lambda>r. Ret (lag, r)))
       (filter (\<lambda>lag. \<not> int (lag_samples lag) \<ge> int (length src) - 12) LAGS_S)"

record directed =
  d_forward :: bool
  d_r :: real
  d_lag :: nat
  d_profile :: profile

definition peak_of :: "profile \<Rightarrow> nat \<times> real" where
  "peak_of p = (case argmax (\<lambda>kv. \<bar>snd kv\<bar>) p of None \<Rightarrow> (0, 0) | Some kv \<Rightarrow> kv)"

definition best_directed :: "numlib \<Rightarrow> vec \<Rightarrow> vec \<Rightarrow> directed outcome" where
  "best_directed np srcv dstv =
     (let n = min (length srcv) (length dstv);
          s = py_tail n srcv; d = py_tail n dstv
      in obind (lag_profile np s d) (\<lambda>fwd.
         obind (lag_profile np d s) (\<lambda>rev.
           let fbest = peak_of fwd; rbest = peak_of rev
           in Ret (if \<bar>snd rbest\<bar> > \<bar>snd fbest\<bar> + TINY
                   then \<lparr>d_forward = False, d_r = snd rbest, d_lag = fst rbest, d_profile = rev\<rparr>
                   else \<lparr>d_forward = True, d_r = snd fbest, d_lag = fst fbest, d_profile = fwd\<rparr>))))"

definition index_of :: "'a \<Rightarrow> 'a list \<Rightarrow> nat" where
  "index_of x xs = length (takeWhile (\<lambda>y. y \<noteq> x) xs)"

definition adjacent_support :: "profile \<Rightarrow> nat \<Rightarrow> real \<Rightarrow> bool" where
  "adjacent_support profile peak_lag floor_r =
     (let lags = sort (keys profile) in
      if peak_lag \<notin> set lags then False
      else
       (let i = index_of peak_lag lags;
            neighbors = (if i \<ge> 1 then [lags ! (i - 1)] else []) @
                        (if i + 1 < length lags then [lags ! (i + 1)] else [])
        in list_ex (\<lambda>n. \<bar>dict_get profile n 0\<bar> \<ge> floor_r) neighbors))"

section \<open>Lemmas\<close>

lemma length_znorm [simp]: "length (znorm np x) = length x"
  by (simp add: znorm_def Let_def)

lemma corr_at_lag_total:
  "length src = length dst \<Longrightarrow> \<exists>r. corr_at_lag np src dst k = Ret r"
  by (auto simp: corr_at_lag_def Let_def split: option.split)

lemma corr_at_lag_bounded:
  "corr_bounded np \<Longrightarrow> corr_at_lag np src dst k = Ret r \<Longrightarrow> \<bar>r\<bar> \<le> 1"
  by (auto simp: corr_at_lag_def corr_bounded_def Let_def split: if_splits option.splits)

lemma lag_profile_total:
  assumes "length src = length dst"
  shows "\<exists>p. lag_profile np src dst = Ret p"
  unfolding lag_profile_def
proof (rule omap_total)
  fix lag
  show "\<exists>y. obind (corr_at_lag np (znorm np src) (znorm np dst) (lag_samples lag)) (\<lambda>r. Ret (lag, r)) = Ret y"
    using corr_at_lag_total[of "znorm np src" "znorm np dst" np "lag_samples lag"] assms by auto
qed

lemma lag_profile_mem:
  assumes "lag_profile np src dst = Ret p" and "(lag, r) \<in> set p"
  shows "lag \<in> set LAGS_S \<and> corr_at_lag np (znorm np src) (znorm np dst) (lag_samples lag) = Ret r"
  using omap_memD[OF assms(1)[unfolded lag_profile_def] assms(2)] by (auto simp: outcome_simps)

lemma omap_keys:
  "omap (\<lambda>l. obind (f l) (\<lambda>r. Ret (l, r))) ls = Ret p \<Longrightarrow> keys p = ls"
  by (induction ls arbitrary: p) (auto simp: outcome_simps)

lemma lag_profile_keys:
  "lag_profile np src dst = Ret p \<Longrightarrow>
   keys p = filter (\<lambda>lag. \<not> int (lag_samples lag) \<ge> int (length src) - 12) LAGS_S"
  unfolding lag_profile_def by (rule omap_keys)

lemma peak_of_mem: "p \<noteq> [] \<Longrightarrow> peak_of p \<in> set p"
  by (auto simp: peak_of_def split: option.split dest: argmax_SomeD)

lemma peak_of_max: "(l, r) \<in> set p \<Longrightarrow> \<bar>r\<bar> \<le> \<bar>snd (peak_of p)\<bar>"
  using argmax_SomeD[of "\<lambda>kv. \<bar>snd kv\<bar>" p "peak_of p"]
  by (cases "argmax (\<lambda>kv. \<bar>snd kv\<bar>) p") (auto simp: peak_of_def)

lemma peak_of_Nil [simp]: "peak_of [] = (0, 0)"
  by (simp add: peak_of_def argmax_def)

lemma peak_of_bounded:
  assumes "corr_bounded np" and "lag_profile np src dst = Ret p"
  shows "\<bar>snd (peak_of p)\<bar> \<le> 1"
proof (cases "p = []")
  case False
  then have "(fst (peak_of p), snd (peak_of p)) \<in> set p" using peak_of_mem by simp
  from lag_profile_mem[OF assms(2) this] show ?thesis using corr_at_lag_bounded[OF assms(1)] by blast
qed simp

lemma best_directed_eq_Ret:
  "best_directed np a b = Ret d \<longleftrightarrow>
    (\<exists>fwd rev. lag_profile np (py_tail (min (length a) (length b)) a) (py_tail (min (length a) (length b)) b) = Ret fwd \<and>
       lag_profile np (py_tail (min (length a) (length b)) b) (py_tail (min (length a) (length b)) a) = Ret rev \<and>
       d = (if \<bar>snd (peak_of rev)\<bar> > \<bar>snd (peak_of fwd)\<bar> + TINY
            then \<lparr>d_forward = False, d_r = snd (peak_of rev), d_lag = fst (peak_of rev), d_profile = rev\<rparr>
            else \<lparr>d_forward = True, d_r = snd (peak_of fwd), d_lag = fst (peak_of fwd), d_profile = fwd\<rparr>))"
  by (auto simp: best_directed_def Let_def outcome_simps)

lemma length_aligned:
  "a \<noteq> [] \<Longrightarrow> b \<noteq> [] \<Longrightarrow>
   length (py_tail (min (length a) (length b)) a) = length (py_tail (min (length a) (length b)) b)"
  by (cases a; cases b) (simp_all add: length_py_tail)

lemma best_directed_total:
  assumes "a \<noteq> []" and "b \<noteq> []"
  shows "\<exists>d. best_directed np a b = Ret d"
proof -
  let ?n = "min (length a) (length b)"
  have "length (py_tail ?n a) = length (py_tail ?n b)" using assms by (rule length_aligned)
  with lag_profile_total[of "py_tail ?n a" "py_tail ?n b" np] lag_profile_total[of "py_tail ?n b" "py_tail ?n a" np]
  show ?thesis by (auto simp: best_directed_def Let_def)
qed

lemma best_directed_bounded:
  "corr_bounded np \<Longrightarrow> best_directed np a b = Ret d \<Longrightarrow> \<bar>d_r d\<bar> \<le> 1"
  by (auto simp: best_directed_eq_Ret dest: peak_of_bounded)

lemma index_of_less: "x \<in> set xs \<Longrightarrow> index_of x xs < length xs \<and> xs ! index_of x xs = x"
  by (induction xs) (auto simp: index_of_def)

lemma adjacent_support_mem:
  assumes "adjacent_support p l f"
  shows "l \<in> fst ` set p \<and> (\<exists>n \<in> fst ` set p. \<bar>dict_get p n 0\<bar> \<ge> f)"
proof -
  let ?lags = "sort (keys p)"
  have l: "l \<in> set ?lags" using assms by (auto simp: adjacent_support_def Let_def split: if_splits)
  note i = index_of_less[OF l, THEN conjunct1]
  then have "\<exists>n \<in> set ?lags. \<bar>dict_get p n 0\<bar> \<ge> f"
    using assms l i nth_mem[of "index_of l ?lags - 1" ?lags] nth_mem[of "index_of l ?lags + 1" ?lags]
    by (auto simp: adjacent_support_def Let_def simp del: set_sort set_map split: if_splits)
  with l show ?thesis by simp
qed

section \<open>Properties\<close>

text \<open>Swapping the two series swaps the verdict: either both calls name the same series as the
  leader, with the same correlation, lag and profile, or both report their first argument as the
  leader, and then the two peak magnitudes are equal up to the tie tolerance \<open>1e-9\<close>.\<close>

theorem best_directed_swap:
  assumes "best_directed np a b = Ret d" and "best_directed np b a = Ret d'"
  shows "if d_forward d = d_forward d'
    then d_forward d \<and> d_forward d' \<and> \<bar>\<bar>d_r d\<bar> - \<bar>d_r d'\<bar>\<bar> \<le> TINY
    else d_r d = d_r d' \<and> d_lag d = d_lag d' \<and> d_profile d = d_profile d'"
proof -
  let ?out = "\<lambda>f x p. \<lparr>d_forward = f, d_r = snd x, d_lag = fst x, d_profile = p\<rparr>"
  from assms obtain fwd rev where
    d: "d = (if \<bar>snd (peak_of rev)\<bar> > \<bar>snd (peak_of fwd)\<bar> + TINY
      then ?out False (peak_of rev) rev else ?out True (peak_of fwd) fwd)" and
    d': "d' = (if \<bar>snd (peak_of fwd)\<bar> > \<bar>snd (peak_of rev)\<bar> + TINY
      then ?out False (peak_of fwd) fwd else ?out True (peak_of rev) rev)"
    by (auto simp: best_directed_eq_Ret min.commute)
  have "TINY > 0" by (simp add: TINY_def)
  then consider "\<bar>snd (peak_of rev)\<bar> > \<bar>snd (peak_of fwd)\<bar> + TINY" "\<not> \<bar>snd (peak_of fwd)\<bar> > \<bar>snd (peak_of rev)\<bar> + TINY"
    | "\<bar>snd (peak_of fwd)\<bar> > \<bar>snd (peak_of rev)\<bar> + TINY" "\<not> \<bar>snd (peak_of rev)\<bar> > \<bar>snd (peak_of fwd)\<bar> + TINY"
    | "\<not> \<bar>snd (peak_of rev)\<bar> > \<bar>snd (peak_of fwd)\<bar> + TINY" "\<not> \<bar>snd (peak_of fwd)\<bar> > \<bar>snd (peak_of rev)\<bar> + TINY"
    by linarith
  then show ?thesis
    by cases (simp_all add: d d' abs_le_iff)
qed

definition ramp_up :: vec where "ramp_up = replicate 8 0 @ replicate 8 6 @ replicate 4 0"
definition ramp_late :: vec where "ramp_late = replicate 11 0 @ replicate 8 6 @ replicate 1 0"

theorem best_directed_swap_witness:
  "\<exists>d d'. best_directed ref_num ramp_up ramp_late = Ret d \<and>
     best_directed ref_num ramp_late ramp_up = Ret d' \<and>
     (if d_forward d = d_forward d'
      then d_forward d \<and> d_forward d' \<and> \<bar>\<bar>d_r d\<bar> - \<bar>d_r d'\<bar>\<bar> \<le> TINY
      else d_r d = d_r d' \<and> d_lag d = d_lag d' \<and> d_profile d = d_profile d')"
proof -
  obtain d where d: "best_directed ref_num ramp_up ramp_late = Ret d"
    using best_directed_total[of ramp_up ramp_late] by (auto simp: ramp_up_def ramp_late_def)
  obtain d' where d': "best_directed ref_num ramp_late ramp_up = Ret d'"
    using best_directed_total[of ramp_late ramp_up] by (auto simp: ramp_up_def ramp_late_def)
  from d d' best_directed_swap[OF d d'] show ?thesis by blast
qed

text \<open>C26. The reported peak is the strongest correlation in either direction: up to the tie
  tolerance its magnitude bounds every entry of both profiles, it is an entry of the reported
  profile at a configured lag (unless no lag fits the window), and it lies in \<open>[-1, 1]\<close>.\<close>

theorem best_directed_peak:
  assumes "corr_bounded np" and "a \<noteq> []" and "b \<noteq> []"
  shows "\<exists>d fwd rev. best_directed np a b = Ret d \<and>
    lag_profile np (py_tail (min (length a) (length b)) a) (py_tail (min (length a) (length b)) b) = Ret fwd \<and>
    lag_profile np (py_tail (min (length a) (length b)) b) (py_tail (min (length a) (length b)) a) = Ret rev \<and>
    d_profile d = (if d_forward d then fwd else rev) \<and>
    (\<forall>(l, r) \<in> set fwd \<union> set rev. \<bar>r\<bar> \<le> \<bar>d_r d\<bar> + TINY) \<and>
    (d_profile d \<noteq> [] \<longrightarrow> d_lag d \<in> set LAGS_S \<and> (d_lag d, d_r d) \<in> set (d_profile d)) \<and>
    \<bar>d_r d\<bar> \<le> 1"
proof -
  obtain d where d: "best_directed np a b = Ret d" using best_directed_total assms(2,3) by blast
  then obtain fwd rev where prof:
    "lag_profile np (py_tail (min (length a) (length b)) a) (py_tail (min (length a) (length b)) b) = Ret fwd"
    "lag_profile np (py_tail (min (length a) (length b)) b) (py_tail (min (length a) (length b)) a) = Ret rev"
    and deq: "d = (if \<bar>snd (peak_of rev)\<bar> > \<bar>snd (peak_of fwd)\<bar> + TINY
            then \<lparr>d_forward = False, d_r = snd (peak_of rev), d_lag = fst (peak_of rev), d_profile = rev\<rparr>
            else \<lparr>d_forward = True, d_r = snd (peak_of fwd), d_lag = fst (peak_of fwd), d_profile = fwd\<rparr>)"
    unfolding best_directed_eq_Ret by blast
  have bound: "\<bar>r\<bar> \<le> \<bar>d_r d\<bar> + TINY" if "(l, r) \<in> set fwd \<union> set rev" for l r
  proof -
    have "TINY > 0" by (simp add: TINY_def)
    moreover have "\<bar>r\<bar> \<le> \<bar>snd (peak_of fwd)\<bar> \<or> \<bar>r\<bar> \<le> \<bar>snd (peak_of rev)\<bar>"
      using that peak_of_max by blast
    ultimately show ?thesis unfolding deq by (simp split: if_split) linarith
  qed
  have mem: "(d_lag d, d_r d) \<in> set (d_profile d)" if "d_profile d \<noteq> []"
    using that peak_of_mem[of fwd] peak_of_mem[of rev] by (auto simp: deq split: if_splits)
  have "d_lag d \<in> set LAGS_S" if "d_profile d \<noteq> []"
    using mem[OF that] lag_profile_mem[OF prof(1), of "d_lag d" "d_r d"]
      lag_profile_mem[OF prof(2), of "d_lag d" "d_r d"]
    by (cases "d_forward d") (simp_all add: deq split: if_splits)
  moreover have "d_profile d = (if d_forward d then fwd else rev)" by (simp add: deq)
  ultimately show ?thesis
    using d prof bound mem best_directed_bounded[OF assms(1) d] by blast
qed

theorem best_directed_peak_witness:
  "\<exists>d. best_directed ref_num ramp_up ramp_late = Ret d \<and> \<bar>d_r d\<bar> \<le> 1"
  using best_directed_peak[of ref_num ramp_up ramp_late] ref_num_corr_bounded
  by (auto simp: ramp_up_def ramp_late_def)

end
