(* ===== verification/Gate.thy ===== *)
theory Gate
  imports Lagcorr
begin

text \<open>
  The evidence acceptance gate of \<open>src/correlation/engine/gate.py\<close>: the physical witness and the
  three clauses of \<open>accept_edge\<close>. The witness's sets are lists of their elements in one iteration
  order; a \<open>frozenset\<close> of two pods is a set of pods. Evidence tags are a datatype, ordered by the
  strings the source writes.

  The locale \<open>edge_rule\<close> is the contract of every rule that puts an edge into the causal graph:
  the psi gate here and the writer rule of the pipeline are its two instances.
\<close>

section \<open>Evidence\<close>

datatype ev = Stat | Temporal | Write | Ebpf | Psi | Pvc | Node

fun tag_name :: "ev \<Rightarrow> string" where
  "tag_name Stat = ''stat''"
| "tag_name Temporal = ''temporal''"
| "tag_name Write = ''write''"
| "tag_name Ebpf = ''ebpf''"
| "tag_name Psi = ''psi''"
| "tag_name Pvc = ''pvc''"
| "tag_name Node = ''node''"

lemma tag_name_inj: "tag_name a = tag_name b \<longleftrightarrow> a = b"
  by (cases a; cases b) auto

instantiation ev :: linorder
begin

definition less_eq_ev :: "ev \<Rightarrow> ev \<Rightarrow> bool" where
  "less_eq_ev a b \<longleftrightarrow> tag_name a \<le> tag_name b"

definition less_ev :: "ev \<Rightarrow> ev \<Rightarrow> bool" where
  "less_ev a b \<longleftrightarrow> tag_name a < tag_name b"

instance
  by standard (auto simp: less_eq_ev_def less_ev_def less_le_not_le tag_name_inj[symmetric])

end

record edge =
  e_src :: pod
  e_dst :: pod
  e_r :: real
  e_lag :: nat
  e_evidence :: "ev list"

section \<open>Witness\<close>

record witness =
  ebpf_edges :: "(pod \<times> pod) list"
  psi_copressure :: "pod set list"
  shared_relation :: "pod set list"
  same_node :: "pod set list"

definition R_PEAK :: real where "R_PEAK = 0.6"
definition R_ADJ :: real where "R_ADJ = 0.4"
definition TEMPORAL_TOL_S :: real where "TEMPORAL_TOL_S = 10"
definition COUPLING_KINDS :: "ev list" where "COUPLING_KINDS = [Ebpf, Pvc]"
definition SOURCE_COUPLING_KINDS :: "ev list" where "SOURCE_COUPLING_KINDS = [Ebpf, Pvc, Node]"

definition kinds :: "witness \<Rightarrow> pod \<Rightarrow> pod \<Rightarrow> ev list" where
  "kinds w src dst =
     (if (src, dst) \<in> set (ebpf_edges w) \<or> (dst, src) \<in> set (ebpf_edges w) then [Ebpf] else []) @
     (if {src, dst} \<in> set (psi_copressure w) then [Psi] else []) @
     (if {src, dst} \<in> set (shared_relation w) then [Pvc] else []) @
     (if {src, dst} \<in> set (same_node w) then [Node] else [])"

definition couples :: "witness \<Rightarrow> pod \<Rightarrow> pod \<Rightarrow> bool" where
  "couples w src dst = list_ex (\<lambda>k. k \<in> set COUPLING_KINDS) (kinds w src dst)"

definition couples_source :: "witness \<Rightarrow> pod \<Rightarrow> pod \<Rightarrow> bool" where
  "couples_source w src dst = list_ex (\<lambda>k. k \<in> set SOURCE_COUPLING_KINDS) (kinds w src dst)"

section \<open>The gate\<close>

type_synonym onsets = "(pod, real) dict"

definition accept_edge ::
  "pod \<Rightarrow> pod \<Rightarrow> real \<Rightarrow> nat \<Rightarrow> profile \<Rightarrow> witness \<Rightarrow> onsets \<Rightarrow> edge option" where
  "accept_edge src dst r lag profile w onset_s =
     (if r < R_PEAK \<or> \<not> adjacent_support profile lag R_ADJ then None
      else
       (let ks = kinds w src dst in
        if \<not> list_ex (\<lambda>k. k \<in> set COUPLING_KINDS) ks then None
        else
         (let emit = (\<lambda>temporal. Some \<lparr>e_src = src, e_dst = dst, e_r = py_round 3 r, e_lag = lag,
                       e_evidence = [Stat] @ ks @ (if temporal then [Temporal] else [])\<rparr>)
          in case (map_of onset_s src, map_of onset_s dst) of
               (Some t_src, Some t_dst) \<Rightarrow>
                 (if t_src > t_dst + TEMPORAL_TOL_S then None
                  else if lag > 0 \<and> t_dst - t_src > 4 * of_nat lag + TEMPORAL_TOL_S then None
                  else emit True)
             | _ \<Rightarrow> emit False)))"

section \<open>Lemmas\<close>

lemma kinds_sym: "kinds w a b = kinds w b a"
  by (auto simp: kinds_def insert_commute)

lemma couples_sym: "couples w a b = couples w b a"
  by (simp add: couples_def kinds_sym[of w a b])

lemma couples_source_sym: "couples_source w a b = couples_source w b a"
  by (simp add: couples_source_def kinds_sym[of w a b])

lemma couples_iff:
  "couples w a b \<longleftrightarrow> (a, b) \<in> set (ebpf_edges w) \<or> (b, a) \<in> set (ebpf_edges w) \<or> {a, b} \<in> set (shared_relation w)"
  by (auto simp: couples_def kinds_def COUPLING_KINDS_def list_ex_iff)

lemma couples_source_iff:
  "couples_source w a b \<longleftrightarrow> couples w a b \<or> {a, b} \<in> set (same_node w)"
  by (auto simp: couples_source_def couples_def kinds_def COUPLING_KINDS_def SOURCE_COUPLING_KINDS_def list_ex_iff)

lemma kinds_tags: "set (kinds w a b) \<subseteq> {Ebpf, Psi, Pvc, Node}"
  by (auto simp: kinds_def)

lemma py_round_06 [simp]: "py_round 3 (3 / 5) = 3 / 5"
  by (simp add: py_round_def round_half_even_def Let_def)

lemma py_round_05 [simp]: "py_round 3 (1 / 2) = 1 / 2"
  by (simp add: py_round_def round_half_even_def Let_def)

lemma accept_edge_SomeD:
  assumes "accept_edge a b r l p w on = Some e"
  shows "e_src e = a" "e_dst e = b" "e_lag e = l" "e_r e = py_round 3 r" "r \<ge> R_PEAK"
    "adjacent_support p l R_ADJ" "couples w a b" "Stat \<in> set (e_evidence e)" "Write \<notin> set (e_evidence e)"
  using assms kinds_tags[of w a b]
  by (auto simp: accept_edge_def couples_def Let_def not_less split: if_splits option.splits prod.splits)

lemma accept_edge_order:
  assumes "accept_edge a b r l p w on = Some e" and "map_of on a = Some ta" and "map_of on b = Some tb"
  shows "ta \<le> tb + TEMPORAL_TOL_S" "l > 0 \<Longrightarrow> tb - ta \<le> 4 * of_nat l + TEMPORAL_TOL_S"
    "Temporal \<in> set (e_evidence e)"
  using assms by (auto simp: accept_edge_def Let_def not_less split: if_splits)

section \<open>The contract of an edge rule\<close>

locale edge_rule =
  fixes admits :: "witness \<Rightarrow> onsets \<Rightarrow> onsets \<Rightarrow> 'x \<Rightarrow> pod \<Rightarrow> pod \<Rightarrow> edge \<Rightarrow> bool"
    and coupled :: "witness \<Rightarrow> pod \<Rightarrow> pod \<Rightarrow> bool"
    and strength :: real
    and tag :: ev
  assumes ends: "admits w os od x a b e \<Longrightarrow> e_src e = a \<and> e_dst e = b"
    and coupling: "admits w os od x a b e \<Longrightarrow> coupled w a b"
    and strong: "admits w os od x a b e \<Longrightarrow> strength \<le> e_r e"
    and tagged: "admits w os od x a b e \<Longrightarrow> tag \<in> set (e_evidence e)"
    and order: "admits w os od x a b e \<Longrightarrow> map_of os a = Some ta \<Longrightarrow> map_of od b = Some tb \<Longrightarrow>
      ta \<le> tb + TEMPORAL_TOL_S"
begin

text \<open>What holds of an edge that the rule admitted for some candidate pair.\<close>

lemma admitted:
  assumes "admits w os od x a b e"
  shows "coupled w (e_src e) (e_dst e) \<and> strength \<le> e_r e \<and> tag \<in> set (e_evidence e) \<and>
    (\<forall>ta tb. map_of os (e_src e) = Some ta \<and> map_of od (e_dst e) = Some tb \<longrightarrow> ta \<le> tb + TEMPORAL_TOL_S)"
  using ends[OF assms] coupling[OF assms] strong[OF assms] tagged[OF assms] order[OF assms] by blast

text \<open>Two admitted edges in opposite directions start together, up to the tolerance.\<close>

lemma opposite:
  assumes "admits w os os x a b e" and "admits w os os y b a e'"
    and "map_of os a = Some ta" and "map_of os b = Some tb"
  shows "\<bar>ta - tb\<bar> \<le> TEMPORAL_TOL_S"
  using order[OF assms(1,3,4)] order[OF assms(2,4,3)] by linarith

end

text \<open>The gate itself is such a rule: it is applied with one dictionary of onsets for both ends.\<close>

definition gate_admits :: "witness \<Rightarrow> onsets \<Rightarrow> onsets \<Rightarrow> real \<times> nat \<times> profile \<Rightarrow> pod \<Rightarrow> pod \<Rightarrow> edge \<Rightarrow> bool" where
  "gate_admits w os od x a b e \<longleftrightarrow>
     os = od \<and> (case x of (r, lag, profile) \<Rightarrow> accept_edge a b r lag profile w od = Some e)"

interpretation gate_rule: edge_rule gate_admits couples R_PEAK Stat
proof
  fix w os od x a b e
  assume "gate_admits w os od x a b e"
  then obtain r l p where acc: "accept_edge a b r l p w od = Some e" and eq: "os = od"
    by (auto simp: gate_admits_def split: prod.splits)
  note acc' = accept_edge_SomeD[OF acc]
  show "e_src e = a \<and> e_dst e = b" "couples w a b" "Stat \<in> set (e_evidence e)" using acc' by auto
  show "R_PEAK \<le> e_r e"
    using acc'(4,5) py_round_mono[of R_PEAK r 3] by (simp add: R_PEAK_def)
  show "map_of os a = Some ta \<Longrightarrow> map_of od b = Some tb \<Longrightarrow> ta \<le> tb + TEMPORAL_TOL_S" for ta tb
    using accept_edge_order(1)[OF acc] eq by simp
qed

section \<open>Properties\<close>

text \<open>An edge the gate admits rests on all three clauses: its ends are the pair asked about, they
  share a disk or a network dependency, the correlation is at least \<open>0.6\<close> and supported at a
  neighbouring lag, and when both onsets are known the source does not start more than ten
  seconds after the destination.\<close>

theorem accept_edge_sound:
  assumes "accept_edge a b r lag p w on = Some e"
  shows "e_src e = a \<and> e_dst e = b \<and> e_lag e = lag \<and> R_PEAK \<le> e_r e \<and>
    ((a, b) \<in> set (ebpf_edges w) \<or> (b, a) \<in> set (ebpf_edges w) \<or> {a, b} \<in> set (shared_relation w)) \<and>
    (\<exists>n \<in> fst ` set p. \<bar>dict_get p n 0\<bar> \<ge> R_ADJ) \<and>
    (\<forall>ta tb. map_of on a = Some ta \<and> map_of on b = Some tb \<longrightarrow> ta \<le> tb + TEMPORAL_TOL_S)"
proof -
  have adm: "gate_admits w on on (r, lag, p) a b e" using assms by (simp add: gate_admits_def)
  note acc = accept_edge_SomeD[OF assms]
  show ?thesis
    using gate_rule.admitted[OF adm] adjacent_support_mem[OF acc(6)] acc(1-3) by (simp add: couples_iff)
qed

theorem accept_edge_sound_witness:
  "\<exists>e. accept_edge ''a'' ''b'' 0.8 15 [(0, 0.5), (15, 0.8)]
      \<lparr>ebpf_edges = [], psi_copressure = [], shared_relation = [{''b'', ''a''}], same_node = []\<rparr>
      [(''a'', 300), (''b'', 315)] = Some e \<and> e_src e = ''a'' \<and> R_PEAK \<le> e_r e"
proof -
  let ?w = "\<lparr>ebpf_edges = [], psi_copressure = [], shared_relation = [{''b'', ''a''}], same_node = []\<rparr>"
  have "accept_edge ''a'' ''b'' 0.8 15 [(0, 0.5), (15, 0.8)] ?w [(''a'', 300), (''b'', 315)] =
    Some \<lparr>e_src = ''a'', e_dst = ''b'', e_r = 0.8, e_lag = 15, e_evidence = [Stat, Pvc, Temporal]\<rparr>"
    by code_simp
  with accept_edge_sound[OF this] show ?thesis by blast
qed

text \<open>C20. Corroboration never decides: whatever co-pressure and co-location relations are known, the
  gate admits the same pairs with the same correlation and lag as with none, and the evidence
  differs in the corroborating tags only.\<close>

definition corroborating :: "ev \<Rightarrow> bool" where
  "corroborating k \<longleftrightarrow> k = Psi \<or> k = Node"

lemma kinds_strip:
  "filter (\<lambda>k. \<not> corroborating k) (kinds (w\<lparr>psi_copressure := ps, same_node := ns\<rparr>) a b) =
   filter (\<lambda>k. \<not> corroborating k) (kinds w a b)"
  by (simp add: kinds_def corroborating_def)

theorem corroboration_never_decides:
  "map_option (\<lambda>e. e\<lparr>e_evidence := filter (\<lambda>k. \<not> corroborating k) (e_evidence e)\<rparr>)
     (accept_edge a b r lag p (w\<lparr>psi_copressure := ps, same_node := ns\<rparr>) on) =
   map_option (\<lambda>e. e\<lparr>e_evidence := filter (\<lambda>k. \<not> corroborating k) (e_evidence e)\<rparr>)
     (accept_edge a b r lag p w on)"
proof -
  let ?w = "w\<lparr>psi_copressure := ps, same_node := ns\<rparr>"
  have couple: "list_ex (\<lambda>k. k \<in> set COUPLING_KINDS) (kinds ?w a b) = list_ex (\<lambda>k. k \<in> set COUPLING_KINDS) (kinds w a b)"
    using couples_iff[of ?w a b] couples_iff[of w a b] by (simp add: couples_def)
  show ?thesis
    unfolding accept_edge_def Let_def couple
    by (simp add: kinds_strip split: option.split)
qed

text \<open>The gate admits a pair in both directions only for a simultaneous disturbance: when it
  accepts \<open>a\<close> to \<open>b\<close> and \<open>b\<close> to \<open>a\<close> on the same onsets, the two onsets differ by at most the
  temporal tolerance.\<close>

theorem accept_edge_antisym:
  assumes "accept_edge a b r lag p w on = Some e" and "accept_edge b a r' lag' p' w on = Some e'"
    and "map_of on a = Some ta" and "map_of on b = Some tb"
  shows "\<bar>ta - tb\<bar> \<le> TEMPORAL_TOL_S"
  by (rule gate_rule.opposite[of w on "(r, lag, p)" a b e "(r', lag', p')" e'])
    (use assms in \<open>simp_all add: gate_admits_def\<close>)

theorem accept_edge_antisym_witness:
  "\<bar>300 - 305 :: real\<bar> \<le> TEMPORAL_TOL_S"
proof -
  let ?w = "\<lparr>ebpf_edges = [(''a'', ''b'')], psi_copressure = [], shared_relation = [], same_node = []\<rparr>"
  let ?on = "[(''a'', 300), (''b'', 305)] :: onsets"
  have ab: "accept_edge ''a'' ''b'' 0.8 5 [(0, 0.7), (5, 0.8)] ?w ?on =
    Some \<lparr>e_src = ''a'', e_dst = ''b'', e_r = 0.8, e_lag = 5, e_evidence = [Stat, Ebpf, Temporal]\<rparr>"
    and ba: "accept_edge ''b'' ''a'' 0.7 0 [(0, 0.7), (5, 0.5)] ?w ?on =
    Some \<lparr>e_src = ''b'', e_dst = ''a'', e_r = 0.7, e_lag = 0, e_evidence = [Stat, Ebpf, Temporal]\<rparr>"
    by code_simp+
  show ?thesis by (rule accept_edge_antisym[OF ab ba]) simp_all
qed

end
