(* ===== verification/Workload_Name.thy ===== *)
theory Workload_Name
  imports Py_Base
begin

text \<open>
  Workload identity: \<open>stable_workload\<close> of \<open>src/correlation/engine/state.py\<close>, which
  \<open>src/correlation/service.py\<close> and \<open>src/api/main.py\<close> repeat as \<open>workload\<close>. A Kubernetes pod is named
  \<open><workload>-<replicaset hash>-<pod hash>\<close>; the workload is what survives a restart.
\<close>

type_synonym workload = string

definition stable_workload :: "pod \<Rightarrow> workload" where
  "stable_workload p =
     (let parts = py_split (CHR ''-'') p
      in if length parts > 2 then py_join ''-'' (take (length parts - 2) parts) else p)"

section \<open>Lemmas\<close>

lemma py_join_dash: "py_join ''-'' (py_split (CHR ''-'') s) = s"
  using py_join_split[of "CHR ''-''" s] by simp

lemma py_split_pod:
  assumes "CHR ''-'' \<notin> set h1" and "CHR ''-'' \<notin> set h2"
  shows "py_split (CHR ''-'') (w @ ''-'' @ h1 @ ''-'' @ h2) = py_split (CHR ''-'') w @ [h1, h2]"
  using py_split_append[OF assms(2), of "w @ ''-'' @ h1"] py_split_append[OF assms(1), of w] by simp

lemma stable_workload_pod:
  assumes "CHR ''-'' \<notin> set h1" and "CHR ''-'' \<notin> set h2"
  shows "stable_workload (w @ ''-'' @ h1 @ ''-'' @ h2) = w"
proof -
  have "length (py_split (CHR ''-'') w) > 0" by simp
  then show ?thesis
    unfolding stable_workload_def Let_def py_split_pod[OF assms] by (simp add: py_join_dash)
qed

section \<open>Properties\<close>

text \<open>The workload of a pod is recovered exactly, whatever dashes its own name contains: dropping the
  ReplicaSet and pod hashes of \<open>w-h1-h2\<close> gives \<open>w\<close>, so two generations of one workload have one name
  and pods of different workloads never merge.\<close>

theorem stable_workload_roundtrip:
  assumes "CHR ''-'' \<notin> set h1" and "CHR ''-'' \<notin> set h2"
    and "CHR ''-'' \<notin> set k1" and "CHR ''-'' \<notin> set k2"
  shows "stable_workload (w @ ''-'' @ h1 @ ''-'' @ h2) = w \<and>
    (stable_workload (w @ ''-'' @ h1 @ ''-'' @ h2) = stable_workload (v @ ''-'' @ k1 @ ''-'' @ k2) \<longleftrightarrow> w = v)"
  using stable_workload_pod[OF assms(1,2)] stable_workload_pod[OF assms(3,4)] by simp

theorem stable_workload_roundtrip_witness:
  "stable_workload ''cooling-monitor-59584cbf7d-6szhd'' = ''cooling-monitor''"
  using stable_workload_roundtrip[of "''59584cbf7d''" "''6szhd''" "''a''" "''b''" "''cooling-monitor''"] by simp

end
