(* ===== verification/Sql_Table.thy ===== *)
theory Sql_Table
  imports Py_Base
begin

text \<open>
  The SQLite tables of the memory, as far as the engine uses them: rows under a primary key, kept in
  rowid order. \<open>INSERT OR REPLACE\<close> deletes the old row and appends the new one, \<open>INSERT OR IGNORE\<close> keeps
  an existing row, and \<open>UPDATE ... WHERE <key>\<close> changes a row in place.

  The locale \<open>keyed_store\<close> is what the engine relies on when it writes one row; every writer of the
  memory is such a store, so a fact about all rows is kept by a write that keeps it for its own row.
\<close>

type_synonym ('k, 'r) table = "('k \<times> 'r) list"

definition row_replace :: "('k, 'r) table \<Rightarrow> 'k \<Rightarrow> 'r \<Rightarrow> ('k, 'r) table" where
  "row_replace t k r = filter (\<lambda>kr. fst kr \<noteq> k) t @ [(k, r)]"

definition row_set :: "('k, 'r) table \<Rightarrow> 'k \<Rightarrow> 'r \<Rightarrow> ('k, 'r) table" where
  "row_set t k r = List.map (\<lambda>(k', r'). (k', if k' = k then r else r')) t"

definition row_insert_ignore :: "('k, 'r) table \<Rightarrow> 'k \<Rightarrow> 'r \<Rightarrow> ('k, 'r) table" where
  "row_insert_ignore t k r = (if k \<in> fst ` set t then t else t @ [(k, r)])"

text \<open>An update of a row that is there, an insert of one that is not: what the engine does after a
  \<open>SELECT\<close> on the key.\<close>

definition row_put :: "('k, 'r) table \<Rightarrow> 'k \<Rightarrow> 'r \<Rightarrow> ('k, 'r) table" where
  "row_put t k r = (case map_of t k of None \<Rightarrow> t @ [(k, r)] | Some _ \<Rightarrow> row_set t k r)"

section \<open>The contract\<close>

definition all_rows :: "('k \<Rightarrow> 'r option) \<Rightarrow> ('k \<Rightarrow> 'r \<Rightarrow> bool) \<Rightarrow> bool" where
  "all_rows m P \<longleftrightarrow> (\<forall>k r. m k = Some r \<longrightarrow> P k r)"

lemma all_rowsI: "(\<And>k r. m k = Some r \<Longrightarrow> P k r) \<Longrightarrow> all_rows m P"
  by (simp add: all_rows_def)

lemma all_rowsD: "all_rows m P \<Longrightarrow> m k = Some r \<Longrightarrow> P k r"
  by (simp add: all_rows_def)

lemma all_rows_mono: "all_rows m P \<Longrightarrow> (\<And>k r. P k r \<Longrightarrow> Q k r) \<Longrightarrow> all_rows m Q"
  by (simp add: all_rows_def)

lemma all_rows_empty [simp]: "all_rows (\<lambda>_. None) P"
  by (simp add: all_rows_def)

locale keyed_store =
  fixes get :: "'t \<Rightarrow> 'k \<Rightarrow> 'r option"
    and put :: "'t \<Rightarrow> 'k \<Rightarrow> 'r \<Rightarrow> 't"
  assumes get_put: "get (put t k r) k' = (if k' = k then Some r else get t k')"
begin

lemma all_rows_put: "all_rows (get t) P \<Longrightarrow> P k r \<Longrightarrow> all_rows (get (put t k r)) P"
  by (simp add: all_rows_def get_put)

lemma put_other: "k' \<noteq> k \<Longrightarrow> get (put t k r) k' = get t k'"
  by (simp add: get_put)

lemma put_same: "get (put t k r) k = Some r"
  by (simp add: get_put)

end

section \<open>The two ways of writing a row are such stores\<close>

lemma map_of_filter_key: "map_of (filter (\<lambda>kr. fst kr \<noteq> k) t) k' = (if k' = k then None else map_of t k')"
  by (induction t) auto

lemma map_of_row_replace [simp]: "map_of (row_replace t k r) k' = (if k' = k then Some r else map_of t k')"
  by (auto simp: row_replace_def map_add_def map_of_filter_key split: option.split)

lemma map_of_row_set [simp]:
  "map_of (row_set t k r) k' = (if k' = k \<and> map_of t k \<noteq> None then Some r else map_of t k')"
  by (induction t) (auto simp: row_set_def)

lemma map_of_row_put [simp]: "map_of (row_put t k r) k' = (if k' = k then Some r else map_of t k')"
  by (auto simp: row_put_def map_add_def split: option.split)

interpretation replaced: keyed_store map_of row_replace
  by unfold_locales simp

interpretation upserted: keyed_store map_of row_put
  by unfold_locales simp

lemma keys_row_set [simp]: "keys (row_set t k r) = keys t"
  by (simp add: row_set_def comp_def case_prod_beta)

lemma keys_row_put: "keys (row_put t k r) = (if k \<in> set (keys t) then keys t else keys t @ [k])"
  by (auto simp: row_put_def map_of_eq_None_iff split: option.split dest: map_of_SomeD)
    (metis image_eqI fst_conv map_of_SomeD option.distinct(1))

lemma keys_row_replace: "keys (row_replace t k r) = filter (\<lambda>k'. k' \<noteq> k) (keys t) @ [k]"
  by (induction t) (auto simp: row_replace_def)

lemma distinct_row_put: "distinct (keys t) \<Longrightarrow> distinct (keys (row_put t k r))"
  by (simp add: keys_row_put)

lemma distinct_row_replace: "distinct (keys t) \<Longrightarrow> distinct (keys (row_replace t k r))"
  by (simp add: keys_row_replace)

lemma distinct_row_insert_ignore: "distinct (keys t) \<Longrightarrow> distinct (keys (row_insert_ignore t k r))"
  by (simp add: row_insert_ignore_def)

lemma map_of_row_insert_ignore [simp]:
  "map_of (row_insert_ignore t k r) k' = (if k' = k \<and> map_of t k = None then Some r else map_of t k')"
proof (cases "map_of t k")
  case None
  then have "k \<notin> fst ` set t" by (simp add: map_of_eq_None_iff)
  with None show ?thesis by (auto simp: row_insert_ignore_def map_add_def split: option.split)
next
  case (Some r')
  then have "k \<in> fst ` set t" by (metis map_of_eq_None_iff option.distinct(1))
  with Some show ?thesis by (simp add: row_insert_ignore_def)
qed

end
