(* ===== verification/Relaxation.thy ===== *)
theory Relaxation
  imports Complex_Main
begin

text \<open>
  The contract of every learning rule of the engine: one update moves a number a fixed fraction of the
  way to a target. Confirming an edge moves its confidence to 1, an absent edge's confidence moves to 0
  and a baseline moves to the observed level. The rules are interpreted where they are defined.
\<close>

locale relaxation =
  fixes update :: "real \<Rightarrow> real" and rate :: real and target :: real
  assumes update_eq: "update x = x + rate * (target - x)"
begin

lemma iterate: "(update ^^ n) x = target - (1 - rate) ^ n * (target - x)"
proof (induction n)
  case (Suc n)
  then have "(update ^^ Suc n) x = update (target - (1 - rate) ^ n * (target - x))" by simp
  also have "\<dots> = target - (1 - rate) * (1 - rate) ^ n * (target - x)"
    unfolding update_eq by (simp add: algebra_simps)
  finally show ?case by simp
qed simp

lemma approaches:
  assumes "0 \<le> rate" "rate \<le> 1"
  shows "\<bar>target - update x\<bar> \<le> \<bar>target - x\<bar>"
proof -
  have "target - update x = (1 - rate) * (target - x)" by (simp add: update_eq algebra_simps)
  then show ?thesis using assms mult_left_le_one_le[of "\<bar>target - x\<bar>" "1 - rate"] by (simp add: abs_mult)
qed

lemma between:
  assumes "0 \<le> rate" "rate \<le> 1"
  shows "min x target \<le> update x" "update x \<le> max x target"
proof -
  have "update x = (1 - rate) * x + rate * target" by (simp add: update_eq algebra_simps)
  then show "min x target \<le> update x" "update x \<le> max x target"
    using assms convex_bound_le[of x "max x target" target "1 - rate" rate]
      convex_bound_le[of "- x" "- min x target" "- target" "1 - rate" rate] by auto
qed

lemma at_least_rate:
  assumes "0 \<le> rate" "rate \<le> 1" "0 \<le> x" "0 \<le> target"
  shows "rate * target \<le> update x"
proof -
  have "0 \<le> (1 - rate) * x" using assms by simp
  then show ?thesis by (simp add: update_eq algebra_simps)
qed

lemma converges:
  assumes "0 < rate" "rate \<le> 1" "0 < eps"
  shows "\<exists>n. \<forall>m \<ge> n. \<bar>target - (update ^^ m) x\<bar> \<le> eps"
proof -
  obtain n where n: "(1 - rate) ^ n < eps / (\<bar>target - x\<bar> + 1)"
    using real_arch_pow_inv[of "eps / (\<bar>target - x\<bar> + 1)" "1 - rate"] assms by auto
  have "\<bar>target - (update ^^ m) x\<bar> \<le> eps" if "n \<le> m" for m
  proof -
    have "(1 - rate) ^ m \<le> (1 - rate) ^ n" using assms that by (intro power_decreasing) auto
    then have "(1 - rate) ^ m * (\<bar>target - x\<bar> + 1) \<le> (1 - rate) ^ n * (\<bar>target - x\<bar> + 1)"
      by (intro mult_right_mono) auto
    also have "\<dots> \<le> eps" using n by (simp add: pos_less_divide_eq add_nonneg_pos less_imp_le)
    finally have "(1 - rate) ^ m * (\<bar>target - x\<bar> + 1) \<le> eps" .
    moreover have "0 \<le> (1 - rate) ^ m" using assms by simp
    ultimately have "(1 - rate) ^ m * \<bar>target - x\<bar> \<le> eps" by (simp add: algebra_simps)
    then show ?thesis using \<open>0 \<le> (1 - rate) ^ m\<close> by (simp add: iterate abs_mult)
  qed
  then show ?thesis by blast
qed

end

end
