(* ===== verification/Edge_Memory.thy ===== *)
theory Edge_Memory
  imports Gate Workload_Name Sql_Table Relaxation
begin

text \<open>
  The persistent edge memory of \<open>src/correlation/engine/state.py\<close>: the configuration, the rows of
  \<open>edge_memory\<close> (keyed by source workload, destination workload and signal), and the three writers of
  a pass, \<open>_seed_structural\<close>, \<open>_confirm_edge\<close> and \<open>_decay_absent_edges\<close>, in the order \<open>observe\<close> runs them.
\<close>

record config =
  c_signal :: string
  c_alpha :: real
  c_decay :: real
  c_show :: real
  c_hide :: real
  c_prior :: real
  c_floor_frac :: real
  c_tau_merge :: real
  c_tau_family :: real
  c_base_alpha :: real
  c_dev_k :: real
  c_mad_floor :: real
  c_base_min_n :: nat

definition default_config :: config where
  "default_config = \<lparr>c_signal = ''psi_io'', c_alpha = 0.4, c_decay = 0.1, c_show = 0.6, c_hide = 0.25,
     c_prior = 0.2, c_floor_frac = 0.4, c_tau_merge = 0.85, c_tau_family = 0.60, c_base_alpha = 0.05,
     c_dev_k = 4.0, c_mad_floor = 0.01, c_base_min_n = 12\<rparr>"

datatype estate = Steady | Active | Confirming | Decaying | Hidden

type_synonym ekey = "workload \<times> workload \<times> string"

record erow =
  er_conf :: real
  er_r :: real
  er_lag :: nat
  er_evidence :: "ev list"
  er_hits :: nat
  er_visible :: bool
  er_state :: estate
  er_first :: real
  er_last :: real
  er_updated :: real
  er_base :: real

type_synonym etable = "(ekey, erow) table"

section \<open>The three writers\<close>

definition seed_pair :: "config \<Rightarrow> workload set \<Rightarrow> real \<Rightarrow> pod set \<Rightarrow> etable \<Rightarrow> etable" where
  "seed_pair cfg present ts pair t =
     (case sorted_list_of_set (stable_workload ` pair) of
        [a, b] \<Rightarrow>
          (if a \<notin> present \<or> b \<notin> present then t
           else
            (let k = (a, b, c_signal cfg) in
             case map_of t k of
               None \<Rightarrow> row_put t k \<lparr>er_conf = c_prior cfg, er_r = 0, er_lag = 0, er_evidence = [Pvc], er_hits = 0,
                          er_visible = False, er_state = Steady, er_first = ts, er_last = ts, er_updated = ts,
                          er_base = c_prior cfg\<rparr>
             | Some row \<Rightarrow> (if er_base row < c_prior cfg then row_put t k (row\<lparr>er_base := c_prior cfg\<rparr>) else t)))
      | _ \<Rightarrow> t)"

definition seed_structural :: "config \<Rightarrow> witness \<Rightarrow> workload set \<Rightarrow> real \<Rightarrow> etable \<Rightarrow> etable" where
  "seed_structural cfg w present ts t = fold (seed_pair cfg present ts) (shared_relation w) t"

definition edge_key :: "config \<Rightarrow> edge \<Rightarrow> ekey" where
  "edge_key cfg e = (stable_workload (e_src e), stable_workload (e_dst e), c_signal cfg)"

definition raise_conf :: "config \<Rightarrow> real \<Rightarrow> real" where
  "raise_conf cfg c = c + c_alpha cfg * (1 - c)"

definition confirm_edge :: "config \<Rightarrow> real \<Rightarrow> edge \<Rightarrow> etable \<Rightarrow> etable" where
  "confirm_edge cfg ts e t =
     (let row = map_of t (edge_key cfg e);
          prev_base = (case row of None \<Rightarrow> 0 | Some x \<Rightarrow> er_base x);
          conf = (case row of None \<Rightarrow> c_alpha cfg | Some x \<Rightarrow> raise_conf cfg (er_conf x));
          hits = (case row of None \<Rightarrow> 1 | Some x \<Rightarrow> er_hits x + 1);
          first = (case row of None \<Rightarrow> ts | Some x \<Rightarrow> er_first x);
          vis = (case row of None \<Rightarrow> conf \<ge> c_show cfg | Some x \<Rightarrow> er_visible x \<or> conf \<ge> c_show cfg);
          base = max prev_base (c_floor_frac cfg * conf)
      in row_replace t (edge_key cfg e)
           \<lparr>er_conf = conf, er_r = e_r e, er_lag = e_lag e, er_evidence = e_evidence e, er_hits = hits,
            er_visible = vis, er_state = (if vis then Active else Confirming), er_first = first,
            er_last = ts, er_updated = ts, er_base = base\<rparr>)"

definition fade_conf :: "config \<Rightarrow> real \<Rightarrow> real" where
  "fade_conf cfg c = c * (1 - c_decay cfg)"

definition decay_row :: "config \<Rightarrow> real \<Rightarrow> erow \<Rightarrow> erow" where
  "decay_row cfg ts row =
     (let base = er_base row;
          conf = max base (fade_conf cfg (er_conf row));
          vis = (er_visible row \<and> conf \<ge> c_hide cfg);
          at_floor = (conf \<le> base + 1 / 10 ^ 9 \<and> base > 0)
      in row\<lparr>er_conf := conf, er_visible := vis,
             er_state := (if at_floor then Steady else if vis then Decaying else Hidden), er_updated := ts\<rparr>)"

definition decays :: "config \<Rightarrow> ekey set \<Rightarrow> workload set \<Rightarrow> ekey \<Rightarrow> bool" where
  "decays cfg seen present k =
     (snd (snd k) = c_signal cfg \<and> k \<notin> seen \<and> fst k \<in> present \<and> fst (snd k) \<in> present)"

definition decay_absent_edges :: "config \<Rightarrow> ekey set \<Rightarrow> workload set \<Rightarrow> real \<Rightarrow> etable \<Rightarrow> etable" where
  "decay_absent_edges cfg seen present ts t =
     List.map (\<lambda>(k, row). (k, if decays cfg seen present k then decay_row cfg ts row else row)) t"

text \<open>What \<open>observe\<close> does to the edge memory.\<close>

definition edge_pass :: "config \<Rightarrow> witness option \<Rightarrow> workload set \<Rightarrow> real \<Rightarrow> edge list \<Rightarrow> etable \<Rightarrow> etable" where
  "edge_pass cfg w present ts es t =
     decay_absent_edges cfg (set (List.map (edge_key cfg) es)) present ts
       (fold (confirm_edge cfg ts) es
         (case w of None \<Rightarrow> t | Some w \<Rightarrow> seed_structural cfg w present ts t))"

section \<open>Both rules are relaxations\<close>

interpretation raising: relaxation "raise_conf cfg" "c_alpha cfg" 1 for cfg
  by unfold_locales (simp add: raise_conf_def)

interpretation fading: relaxation "fade_conf cfg" "c_decay cfg" 0 for cfg
  by unfold_locales (simp add: fade_conf_def algebra_simps)

section \<open>Lemmas: one row at a time\<close>

text \<open>The configurations of interest: rates and fractions are fractions, and a fresh confirmation is at
  least the prior. Both configurations the service builds are such.\<close>

definition config_ok :: "config \<Rightarrow> bool" where
  "config_ok cfg \<longleftrightarrow> 0 \<le> c_alpha cfg \<and> c_alpha cfg \<le> 1 \<and> 0 \<le> c_decay cfg \<and> c_decay cfg \<le> 1 \<and>
     0 \<le> c_prior cfg \<and> c_prior cfg \<le> c_alpha cfg \<and> 0 \<le> c_floor_frac cfg \<and> c_floor_frac cfg \<le> 1 \<and>
     0 \<le> c_hide cfg \<and> c_hide cfg \<le> c_show cfg"

lemma default_config_ok: "config_ok default_config"
  by (simp add: config_ok_def default_config_def)

lemma map_of_confirm_other: "k \<noteq> edge_key cfg e \<Longrightarrow> map_of (confirm_edge cfg ts e t) k = map_of t k"
  by (simp add: confirm_edge_def Let_def)

lemma map_of_confirm_row:
  "\<exists>row. map_of (confirm_edge cfg ts e t) (edge_key cfg e) = Some row \<and>
     er_conf row = (case map_of t (edge_key cfg e) of None \<Rightarrow> c_alpha cfg
       | Some x \<Rightarrow> raise_conf cfg (er_conf x)) \<and>
     er_base row = max (case map_of t (edge_key cfg e) of None \<Rightarrow> 0 | Some x \<Rightarrow> er_base x) (c_floor_frac cfg * er_conf row) \<and>
     er_hits row = (case map_of t (edge_key cfg e) of None \<Rightarrow> 1 | Some x \<Rightarrow> er_hits x + 1) \<and>
     (er_visible row \<longleftrightarrow> er_conf row \<ge> c_show cfg \<or> (\<exists>x. map_of t (edge_key cfg e) = Some x \<and> er_visible x)) \<and>
     er_last row = ts \<and> er_r row = e_r e \<and> er_lag row = e_lag e \<and> er_evidence row = e_evidence e \<and>
     er_state row = (if er_visible row then Active else Confirming)"
  by (auto simp: confirm_edge_def Let_def split: option.split)

lemma map_of_decay:
  "map_of (decay_absent_edges cfg seen present ts t) k =
     map_option (\<lambda>row. if decays cfg seen present k then decay_row cfg ts row else row) (map_of t k)"
  by (induction t) (auto simp: decay_absent_edges_def)

lemma keys_decay [simp]: "keys (decay_absent_edges cfg seen present ts t) = keys t"
  by (simp add: decay_absent_edges_def comp_def case_prod_beta)

section \<open>The invariant of a pass\<close>

definition state_ok :: "erow \<Rightarrow> bool" where
  "state_ok row \<longleftrightarrow> (case er_state row of
     Active \<Rightarrow> er_visible row | Decaying \<Rightarrow> er_visible row
   | Confirming \<Rightarrow> \<not> er_visible row | Hidden \<Rightarrow> \<not> er_visible row | Steady \<Rightarrow> True)"

lemma state_ok_base [simp]: "state_ok (row\<lparr>er_base := b\<rparr>) = state_ok row"
  by (cases "er_state row") (simp_all add: state_ok_def)

definition row_bounded :: "config \<Rightarrow> erow \<Rightarrow> bool" where
  "row_bounded cfg row \<longleftrightarrow> 0 \<le> er_base row \<and> er_base row \<le> 1 \<and> 0 \<le> er_conf row \<and> er_conf row \<le> 1 \<and>
     (er_visible row \<longrightarrow> c_hide cfg \<le> er_conf row) \<and> state_ok row"

definition row_ok :: "config \<Rightarrow> ekey \<Rightarrow> erow \<Rightarrow> bool" where
  "row_ok cfg k row \<longleftrightarrow> row_bounded cfg row \<and> er_base row \<le> er_conf row \<and> snd (snd k) = c_signal cfg"

text \<open>Seeding can lift a floor above a decayed confidence; such a row is one the pass will decay or
  confirm before it ends. \<open>settled\<close> is the set of the keys already confirmed.\<close>

definition mid_row :: "config \<Rightarrow> workload set \<Rightarrow> ekey set \<Rightarrow> ekey \<Rightarrow> erow \<Rightarrow> bool" where
  "mid_row cfg present settled k row \<longleftrightarrow> row_bounded cfg row \<and> snd (snd k) = c_signal cfg \<and>
     (er_base row \<le> er_conf row \<or> er_base row = c_prior cfg \<and> decays cfg settled present k)"

lemma row_ok_mid: "row_ok cfg k row \<Longrightarrow> mid_row cfg present {} k row"
  by (simp add: row_ok_def mid_row_def)

lemma seed_pair_mid:
  assumes "config_ok cfg" "all_rows (map_of t) (mid_row cfg present {})"
  shows "all_rows (map_of (seed_pair cfg present ts pair t)) (mid_row cfg present {})"
proof -
  have fresh: "mid_row cfg present {} (a, b, c_signal cfg) \<lparr>er_conf = c_prior cfg, er_r = 0, er_lag = 0,
      er_evidence = [Pvc], er_hits = 0, er_visible = False, er_state = Steady, er_first = ts, er_last = ts,
      er_updated = ts, er_base = c_prior cfg\<rparr>" for a b
    using assms(1) by (simp add: mid_row_def row_bounded_def state_ok_def config_ok_def)
  have lift: "mid_row cfg present {} (a, b, c_signal cfg) (row\<lparr>er_base := c_prior cfg\<rparr>)"
    if "a \<in> present" "b \<in> present" "map_of t (a, b, c_signal cfg) = Some row" for a b row
    using all_rowsD[OF assms(2) that(3)] that(1,2) assms(1)
    by (auto simp: mid_row_def row_bounded_def config_ok_def decays_def)
  show ?thesis
    unfolding seed_pair_def
    using assms(2) fresh lift
    by (auto simp: Let_def split: list.split option.split intro!: upserted.all_rows_put)
qed

lemma seed_structural_mid:
  assumes "config_ok cfg" "all_rows (map_of t) (mid_row cfg present {})"
  shows "all_rows (map_of (seed_structural cfg w present ts t)) (mid_row cfg present {})"
proof -
  have "all_rows (map_of (fold (seed_pair cfg present ts) ps t)) (mid_row cfg present {})" for ps
    using assms(2) by (induction ps arbitrary: t) (auto simp: seed_pair_mid[OF assms(1)])
  then show ?thesis by (simp add: seed_structural_def)
qed

lemma raise_conf_bounds:
  assumes "config_ok cfg" "0 \<le> c" "c \<le> 1"
  shows "c \<le> raise_conf cfg c" "c_alpha cfg \<le> raise_conf cfg c" "raise_conf cfg c \<le> 1"
  using assms raising.between[of cfg c] raising.at_least_rate[of cfg c] by (auto simp: config_ok_def)

lemma confirm_edge_mid:
  assumes cfg: "config_ok cfg" and t: "all_rows (map_of t) (mid_row cfg present settled)"
  shows "all_rows (map_of (confirm_edge cfg ts e t)) (mid_row cfg present (insert (edge_key cfg e) settled))"
proof (rule all_rowsI)
  fix k row
  assume row: "map_of (confirm_edge cfg ts e t) k = Some row"
  show "mid_row cfg present (insert (edge_key cfg e) settled) k row"
  proof (cases "k = edge_key cfg e")
    case False
    then have "mid_row cfg present settled k row" using row t by (auto simp: map_of_confirm_other dest: all_rowsD)
    with False show ?thesis by (auto simp: mid_row_def decays_def)
  next
    case True
    let ?old = "map_of t k"
    from map_of_confirm_row[of cfg ts e t] row True have r:
      "er_conf row = (case ?old of None \<Rightarrow> c_alpha cfg | Some x \<Rightarrow> raise_conf cfg (er_conf x))"
      "er_base row = max (case ?old of None \<Rightarrow> 0 | Some x \<Rightarrow> er_base x) (c_floor_frac cfg * er_conf row)"
      "er_visible row \<longleftrightarrow> er_conf row \<ge> c_show cfg \<or> (\<exists>x. ?old = Some x \<and> er_visible x)"
      "er_state row = (if er_visible row then Active else Confirming)" by auto
    have old: "mid_row cfg present settled k x" if "?old = Some x" for x using all_rowsD[OF t that] .
    have conf: "c_alpha cfg \<le> er_conf row" "er_conf row \<le> 1"
      "\<And>x. ?old = Some x \<Longrightarrow> er_conf x \<le> er_conf row"
      using r(1) old cfg raise_conf_bounds[OF cfg]
      by (auto simp: mid_row_def row_bounded_def config_ok_def split: option.splits)
    have "0 \<le> c_floor_frac cfg * er_conf row" "c_floor_frac cfg * er_conf row \<le> er_conf row"
      using conf cfg by (auto simp: config_ok_def intro!: mult_left_le_one_le)
    moreover have "(case ?old of None \<Rightarrow> 0 | Some x \<Rightarrow> er_base x) \<le> er_conf row"
      using old conf cfg by (fastforce simp: mid_row_def config_ok_def split: option.split)
    ultimately have base: "0 \<le> er_base row" "er_base row \<le> er_conf row" using r(2) by auto
    have "er_visible row \<longrightarrow> c_hide cfg \<le> er_conf row"
      using r(3) old conf(3) cfg by (fastforce simp: mid_row_def row_bounded_def config_ok_def)
    with base conf r(4) cfg show ?thesis
      by (auto simp: True mid_row_def row_bounded_def state_ok_def config_ok_def edge_key_def)
  qed
qed

lemma confirm_edges_mid:
  assumes "config_ok cfg" "all_rows (map_of t) (mid_row cfg present settled)"
  shows "all_rows (map_of (fold (confirm_edge cfg ts) es t)) (mid_row cfg present (settled \<union> set (List.map (edge_key cfg) es)))"
  using assms(2)
proof (induction es arbitrary: t settled)
  case (Cons e es)
  from Cons.IH[OF confirm_edge_mid[OF assms(1) Cons.prems]] show ?case by simp
qed simp

lemma decay_row_bounded:
  assumes "config_ok cfg" "row_bounded cfg row"
  shows "row_bounded cfg (decay_row cfg ts row) \<and> er_base (decay_row cfg ts row) \<le> er_conf (decay_row cfg ts row)"
proof -
  have "fade_conf cfg (er_conf row) \<le> er_conf row" "0 \<le> fade_conf cfg (er_conf row)"
    using assms fading.between[of cfg "er_conf row"] by (auto simp: config_ok_def row_bounded_def)
  with assms show ?thesis
    by (auto simp: decay_row_def Let_def row_bounded_def state_ok_def)
qed

lemma edge_pass_ok:
  assumes cfg: "config_ok cfg" and t: "all_rows (map_of t) (row_ok cfg)"
  shows "all_rows (map_of (edge_pass cfg w present ts es t)) (row_ok cfg)"
proof (rule all_rowsI)
  let ?seen = "set (List.map (edge_key cfg) es)"
  let ?s = "case w of None \<Rightarrow> t | Some w \<Rightarrow> seed_structural cfg w present ts t"
  fix k row
  assume row: "map_of (edge_pass cfg w present ts es t) k = Some row"
  have "all_rows (map_of t) (mid_row cfg present {})" using t row_ok_mid by (rule all_rows_mono)
  then have "all_rows (map_of ?s) (mid_row cfg present {})" using seed_structural_mid[OF cfg] by (cases w) auto
  from confirm_edges_mid[OF cfg this] have mid: "all_rows (map_of (fold (confirm_edge cfg ts) es ?s)) (mid_row cfg present ?seen)"
    by simp
  obtain old where old: "map_of (fold (confirm_edge cfg ts) es ?s) k = Some old"
    "row = (if decays cfg ?seen present k then decay_row cfg ts old else old)"
    using row by (auto simp: edge_pass_def map_of_decay)
  from all_rowsD[OF mid old(1)] show "row_ok cfg k row"
    using decay_row_bounded[OF cfg, of old ts] by (auto simp: old(2) mid_row_def row_ok_def)
qed

lemma edge_pass_distinct: "distinct (keys t) \<Longrightarrow> distinct (keys (edge_pass cfg w present ts es t))"
proof -
  have seed: "distinct (keys t) \<Longrightarrow> distinct (keys (seed_pair cfg present ts pair t))" for pair t
    by (auto simp: seed_pair_def Let_def distinct_row_put split: list.split option.split)
  have "distinct (keys t) \<Longrightarrow> distinct (keys (fold (seed_pair cfg present ts) ps t))" for ps t
    by (induction ps arbitrary: t) (auto simp: seed)
  moreover have "distinct (keys t) \<Longrightarrow> distinct (keys (fold (confirm_edge cfg ts) es t))" for es t
    by (induction es arbitrary: t) (auto simp: confirm_edge_def Let_def distinct_row_replace)
  ultimately show "distinct (keys t) \<Longrightarrow> ?thesis"
    by (simp add: edge_pass_def seed_structural_def split: option.split)
qed

section \<open>What a pass leaves alone, and visibility\<close>

lemma seed_pair_other:
  "\<not> decays cfg {} present k \<Longrightarrow> map_of (seed_pair cfg present ts pair t) k = map_of t k"
  by (auto simp: seed_pair_def decays_def Let_def split: list.split option.split)

lemma seed_structural_other:
  "\<not> decays cfg {} present k \<Longrightarrow> map_of (seed_structural cfg w present ts t) k = map_of t k"
proof -
  assume k: "\<not> decays cfg {} present k"
  have "map_of (fold (seed_pair cfg present ts) ps t) k = map_of t k" for ps
    by (induction ps arbitrary: t) (simp_all add: seed_pair_other[OF k])
  then show ?thesis by (simp add: seed_structural_def)
qed

lemma confirm_edges_other:
  "k \<notin> set (List.map (edge_key cfg) es) \<Longrightarrow> map_of (fold (confirm_edge cfg ts) es t) k = map_of t k"
  by (induction es arbitrary: t) (simp_all add: map_of_confirm_other)

definition shows_row :: "etable \<Rightarrow> ekey \<Rightarrow> bool" where
  "shows_row t k \<longleftrightarrow> (\<exists>row. map_of t k = Some row \<and> er_visible row)"

lemma seed_pair_shows: "shows_row (seed_pair cfg present ts pair t) k = shows_row t k"
  by (auto simp: seed_pair_def shows_row_def Let_def split: list.split option.split)

lemma seed_structural_shows: "shows_row (seed_structural cfg w present ts t) k = shows_row t k"
proof -
  have "shows_row (fold (seed_pair cfg present ts) ps t) k = shows_row t k" for ps
    by (induction ps arbitrary: t) (simp_all add: seed_pair_shows)
  then show ?thesis by (simp add: seed_structural_def)
qed

lemma confirm_edge_shows:
  "shows_row (confirm_edge cfg ts e t) k \<longleftrightarrow> shows_row t k \<or>
     (k = edge_key cfg e \<and> (\<exists>row. map_of (confirm_edge cfg ts e t) k = Some row \<and> c_show cfg \<le> er_conf row))"
  using map_of_confirm_row[of cfg ts e t] map_of_confirm_other[of k cfg e ts t]
  by (cases "k = edge_key cfg e") (auto simp: shows_row_def)

lemma confirm_edges_shows:
  assumes cfg: "config_ok cfg" and t: "all_rows (map_of t) (mid_row cfg present settled)"
    and "shows_row (fold (confirm_edge cfg ts) es t) k"
  shows "shows_row t k \<or> (k \<in> set (List.map (edge_key cfg) es) \<and>
    (\<exists>row. map_of (fold (confirm_edge cfg ts) es t) k = Some row \<and> c_show cfg \<le> er_conf row))"
  using assms(3)
proof (induction es rule: rev_induct)
  case (snoc e es)
  let ?t = "fold (confirm_edge cfg ts) es t"
  have bound: "0 \<le> er_conf x \<and> er_conf x \<le> 1" if "map_of ?t k = Some x" for x
    using all_rowsD[OF confirm_edges_mid[OF cfg t] that] by (simp add: mid_row_def row_bounded_def)
  show ?case
  proof (cases "k = edge_key cfg e \<and> (\<exists>row. map_of (confirm_edge cfg ts e ?t) k = Some row \<and> c_show cfg \<le> er_conf row)")
    case False
    with snoc.prems have "shows_row ?t k" by (auto simp: confirm_edge_shows)
    from snoc.IH[OF this] show ?thesis
    proof
      assume "k \<in> set (List.map (edge_key cfg) es) \<and> (\<exists>row. map_of ?t k = Some row \<and> c_show cfg \<le> er_conf row)"
      then obtain x where x: "k \<in> set (List.map (edge_key cfg) es)" "map_of ?t k = Some x" "c_show cfg \<le> er_conf x" by blast
      have "\<exists>y. map_of (confirm_edge cfg ts e ?t) k = Some y \<and> er_conf x \<le> er_conf y"
      proof (cases "k = edge_key cfg e")
        case True
        have "\<exists>y. map_of (confirm_edge cfg ts e ?t) (edge_key cfg e) = Some y \<and>
            er_conf y = (case map_of ?t (edge_key cfg e) of None \<Rightarrow> c_alpha cfg | Some x \<Rightarrow> raise_conf cfg (er_conf x))"
          using map_of_confirm_row[of cfg ts e ?t] by blast
        then obtain y where "map_of (confirm_edge cfg ts e ?t) k = Some y" "er_conf y = raise_conf cfg (er_conf x)"
          unfolding True[symmetric] x(2) option.case by blast
        then show ?thesis using raise_conf_bounds(1)[OF cfg, of "er_conf x"] bound[OF x(2)] by simp
      qed (simp add: map_of_confirm_other x(2))
      then obtain y where "map_of (confirm_edge cfg ts e ?t) k = Some y" "c_show cfg \<le> er_conf y" using x(3) by auto
      then show ?thesis using x(1) by simp
    qed simp
  qed auto
qed simp

section \<open>Histories\<close>

text \<open>The tables a database can hold: the empty one, and what a pass makes of one it can hold.\<close>

inductive mem_reach :: "config \<Rightarrow> etable \<Rightarrow> bool" for cfg where
  created: "mem_reach cfg []"
| passed: "mem_reach cfg t \<Longrightarrow> mem_reach cfg (edge_pass cfg w present ts es t)"

inductive_cases mem_reachE: "mem_reach cfg t"

lemma mem_reach_ok:
  assumes "config_ok cfg"
  shows "mem_reach cfg t \<Longrightarrow> distinct (keys t) \<and> all_rows (map_of t) (row_ok cfg)"
  by (induction rule: mem_reach.induct) (auto intro: edge_pass_distinct edge_pass_ok[OF assms])

lemma confirm_iterate:
  assumes "map_of t (edge_key cfg e) = Some row"
  shows "\<exists>row'. map_of ((confirm_edge cfg ts e ^^ n) t) (edge_key cfg e) = Some row' \<and>
    er_conf row' = (raise_conf cfg ^^ n) (er_conf row) \<and> er_hits row' = er_hits row + n \<and>
    er_base row \<le> er_base row'"
proof (induction n)
  case (Suc n)
  then obtain r where "map_of ((confirm_edge cfg ts e ^^ n) t) (edge_key cfg e) = Some r"
    "er_conf r = (raise_conf cfg ^^ n) (er_conf row)" "er_hits r = er_hits row + n" "er_base row \<le> er_base r" by blast
  with map_of_confirm_row[of cfg ts e "(confirm_edge cfg ts e ^^ n) t"] show ?case by auto
qed (use assms in simp)

lemma decay_iterate:
  assumes "config_ok cfg" "0 \<le> er_base row" "er_base row \<le> er_conf row"
  shows "er_conf ((decay_row cfg ts ^^ n) row) = max (er_base row) ((fade_conf cfg ^^ n) (er_conf row)) \<and>
    er_base ((decay_row cfg ts ^^ n) row) = er_base row"
proof (induction n)
  case (Suc n)
  let ?b = "er_base row" and ?f = "(fade_conf cfg ^^ n) (er_conf row)"
  have "max ?b (fade_conf cfg (max ?b ?f)) = max ?b (fade_conf cfg ?f)"
  proof (cases "?b \<le> ?f")
    case False
    then have "fade_conf cfg ?b \<le> ?b" "fade_conf cfg ?f \<le> fade_conf cfg ?b"
      using assms by (auto simp: fade_conf_def config_ok_def intro!: mult_left_le mult_right_mono)
    with False show ?thesis by simp
  qed simp
  with Suc show ?case by (simp add: decay_row_def Let_def)
qed (use assms in simp)

section \<open>Properties\<close>

text \<open>C12. The memory's invariant: in every database a history of passes can produce, the primary key is
  unique and every row carries a floor and a confidence in \<open>[0, 1]\<close> with the floor not above the
  confidence, is visible only at or above the hide threshold, and has a state that agrees with its
  visibility. Seeding may break the floor bound in the middle of a pass; the pass restores it.\<close>

theorem edge_memory_invariant:
  assumes "config_ok cfg" "mem_reach cfg t"
  shows "distinct (keys t) \<and>
    (\<forall>k row. map_of t k = Some row \<longrightarrow> snd (snd k) = c_signal cfg \<and> 0 \<le> er_base row \<and> er_base row \<le> er_conf row \<and>
       er_conf row \<le> 1 \<and> (er_visible row \<longrightarrow> c_hide cfg \<le> er_conf row) \<and> state_ok row)"
  using mem_reach_ok[OF assms] by (auto simp: all_rows_def row_ok_def row_bounded_def)

definition disk_edge :: edge where
  "disk_edge = \<lparr>e_src = ''logger-x-1'', e_dst = ''db-y-2'', e_r = 9 / 10, e_lag = 5, e_evidence = [Write, Pvc]\<rparr>"

definition one_pass :: etable where
  "one_pass = edge_pass default_config None {''logger'', ''db''} 100 [disk_edge] []"

lemma one_pass_row:
  "map_of one_pass (''logger'', ''db'', ''psi_io'') =
     Some \<lparr>er_conf = 4 / 10, er_r = 9 / 10, er_lag = 5, er_evidence = [Write, Pvc], er_hits = 1, er_visible = False,
       er_state = Confirming, er_first = 100, er_last = 100, er_updated = 100, er_base = 16 / 100\<rparr>"
  by code_simp

lemma one_pass_reach: "mem_reach default_config one_pass"
  unfolding one_pass_def by (intro mem_reach.intros)

theorem edge_memory_invariant_witness:
  "0 \<le> (16 / 100 :: real) \<and> (16 / 100 :: real) \<le> 4 / 10 \<and> distinct (keys one_pass)"
  using edge_memory_invariant[OF default_config_ok one_pass_reach] by simp

text \<open>Confidence after \<open>n\<close> consecutive confirmations has a closed form: the distance to full confidence
  shrinks by \<open>1 - alpha\<close> each time, every hit is counted, the learned floor never drops, and the
  confidence never exceeds 1.\<close>

theorem confirmations_closed_form:
  assumes "config_ok cfg" "map_of t (edge_key cfg e) = Some row" "0 \<le> er_conf row" "er_conf row \<le> 1"
  shows "\<exists>row'. map_of ((confirm_edge cfg ts e ^^ n) t) (edge_key cfg e) = Some row' \<and>
    er_conf row' = 1 - (1 - c_alpha cfg) ^ n * (1 - er_conf row) \<and> er_conf row' \<le> 1 \<and>
    er_hits row' = er_hits row + n \<and> er_base row \<le> er_base row'"
proof -
  obtain row' where row': "map_of ((confirm_edge cfg ts e ^^ n) t) (edge_key cfg e) = Some row'"
    "er_conf row' = (raise_conf cfg ^^ n) (er_conf row)" "er_hits row' = er_hits row + n" "er_base row \<le> er_base row'"
    using confirm_iterate[OF assms(2)] by blast
  have "0 \<le> (1 - c_alpha cfg) ^ n * (1 - er_conf row)" using assms by (simp add: config_ok_def)
  then show ?thesis using row' by (simp add: raising.iterate)
qed

theorem confirmations_closed_form_witness:
  "\<exists>row'. map_of ((confirm_edge default_config 200 disk_edge ^^ 2) one_pass) (edge_key default_config disk_edge) = Some row' \<and>
     er_conf row' = 1 - (6 / 10) ^ 2 * (6 / 10) \<and> er_hits row' = 3"
proof -
  have k: "edge_key default_config disk_edge = (''logger'', ''db'', ''psi_io'')" by code_simp
  show ?thesis
    using confirmations_closed_form[OF default_config_ok one_pass_row[folded k], where n = 2 and ts = 200]
    by (auto simp: default_config_def)
qed

text \<open>C28. An edge that stays absent fades to its learned floor and no further: after \<open>n\<close> decays its
  confidence is the larger of the floor and the geometrically decayed confidence, and after finitely
  many it is within any margin of the floor, for good.\<close>

theorem decays_to_the_floor:
  assumes "config_ok cfg" "0 \<le> er_base row" "er_base row \<le> er_conf row" "er_conf row \<le> 1" "0 < c_decay cfg" "0 < eps"
  shows "er_conf ((decay_row cfg ts ^^ n) row) = max (er_base row) ((1 - c_decay cfg) ^ n * er_conf row) \<and>
    (\<exists>m. \<forall>k \<ge> m. er_base row \<le> er_conf ((decay_row cfg ts ^^ k) row) \<and>
       er_conf ((decay_row cfg ts ^^ k) row) \<le> er_base row + eps)"
proof -
  note it = decay_iterate[OF assms(1-3), THEN conjunct1]
  obtain m where m: "\<And>k. m \<le> k \<Longrightarrow> \<bar>(fade_conf cfg ^^ k) (er_conf row)\<bar> \<le> eps"
    using fading.converges[of cfg eps "er_conf row"] assms by (auto simp: config_ok_def)
  have "er_base row \<le> er_conf ((decay_row cfg ts ^^ k) row) \<and> er_conf ((decay_row cfg ts ^^ k) row) \<le> er_base row + eps"
    if "m \<le> k" for k
    using m[OF that] assms(2,6) by (simp add: it)
  then show ?thesis by (auto simp: it fading.iterate)
qed

theorem decays_to_the_floor_witness:
  "\<exists>m. \<forall>k \<ge> m. er_conf ((decay_row default_config 0 ^^ k) (the (map_of one_pass (''logger'', ''db'', ''psi_io'')))) \<le> 16 / 100 + 1 / 100"
  using decays_to_the_floor[OF default_config_ok, of "the (map_of one_pass (''logger'', ''db'', ''psi_io''))" "1 / 100" 0 0]
  unfolding one_pass_row by (auto simp: default_config_def)

text \<open>C29. Visibility has hysteresis: a pass makes an edge visible only by confirming it to at least the show
  threshold, and hides a visible one only when it was absent while both its workloads ran and its
  confidence fell below the hide threshold; in between nothing flickers.\<close>

theorem visibility_hysteresis:
  assumes "config_ok cfg" "mem_reach cfg t" and "map_of (edge_pass cfg w present ts es t) k = Some row'"
  defines "seen \<equiv> set (List.map (edge_key cfg) es)"
  shows "(er_visible row' \<and> \<not> shows_row t k \<longrightarrow> k \<in> seen \<and> c_show cfg \<le> er_conf row') \<and>
    (shows_row t k \<and> \<not> er_visible row' \<longrightarrow> decays cfg seen present k \<and> er_conf row' < c_hide cfg)"
proof -
  let ?s = "case w of None \<Rightarrow> t | Some w \<Rightarrow> seed_structural cfg w present ts t"
  let ?c = "fold (confirm_edge cfg ts) es ?s"
  have "all_rows (map_of t) (mid_row cfg present {})"
    using mem_reach_ok[OF assms(1,2)] row_ok_mid by (blast intro: all_rows_mono)
  then have mid: "all_rows (map_of ?s) (mid_row cfg present {})"
    using seed_structural_mid[OF assms(1)] by (cases w) auto
  have seed: "shows_row ?s k = shows_row t k" by (cases w) (simp_all add: seed_structural_shows)
  obtain row where row: "map_of ?c k = Some row"
    "row' = (if decays cfg seen present k then decay_row cfg ts row else row)"
    using assms(3) by (auto simp: edge_pass_def map_of_decay seen_def)
  have "k \<in> seen \<and> c_show cfg \<le> er_conf row'" if "er_visible row'" "\<not> shows_row t k"
  proof -
    have "er_visible row" using that(1) row(2) by (auto simp: decay_row_def Let_def split: if_splits)
    then have "shows_row ?c k" using row(1) by (simp add: shows_row_def)
    from confirm_edges_shows[OF assms(1) mid this] seed that(2) row(1)
    have "k \<in> seen" "c_show cfg \<le> er_conf row" by (auto simp: seen_def)
    then show ?thesis using row(2) by (simp add: decays_def)
  qed
  moreover have "decays cfg seen present k \<and> er_conf row' < c_hide cfg" if "shows_row t k" "\<not> er_visible row'"
  proof -
    have keeps: "shows_row (fold (confirm_edge cfg ts) ds u) k" if "shows_row u k" for ds u
      using that by (induction ds arbitrary: u) (simp_all add: confirm_edge_shows)
    have "shows_row ?c k" using keeps that(1) seed by simp
    then have "er_visible row" using row(1) by (simp add: shows_row_def)
    with that(2) row(2) show ?thesis by (auto simp: decay_row_def Let_def split: if_splits)
  qed
  ultimately show ?thesis by blast
qed

theorem visibility_hysteresis_witness:
  "\<not> shows_row one_pass (''logger'', ''db'', ''psi_io'') \<and> c_show default_config \<le> 64 / 100"
proof -
  have row: "map_of (edge_pass default_config None {''logger'', ''db''} 200 [disk_edge] one_pass) (''logger'', ''db'', ''psi_io'') =
     Some \<lparr>er_conf = 64 / 100, er_r = 9 / 10, er_lag = 5, er_evidence = [Write, Pvc], er_hits = 2, er_visible = True,
       er_state = Active, er_first = 100, er_last = 200, er_updated = 200, er_base = 256 / 1000\<rparr>"
    by code_simp
  have "\<not> shows_row one_pass (''logger'', ''db'', ''psi_io'')" by (simp add: shows_row_def one_pass_row)
  with visibility_hysteresis[OF default_config_ok one_pass_reach row] show ?thesis by simp
qed

text \<open>A pass never touches what it has no evidence about: the row of an edge it did not see, one of
  whose workloads is not running (or that belongs to another signal), is left exactly as it was, so a
  restart or an outage does not age the memory.\<close>

theorem absent_workloads_are_frozen:
  assumes "k \<notin> set (List.map (edge_key cfg) es)" "\<not> decays cfg {} present k"
  shows "map_of (edge_pass cfg w present ts es t) k = map_of t k"
proof -
  have "\<not> decays cfg seen present k" for seen using assms(2) by (auto simp: decays_def)
  then show ?thesis
    using confirm_edges_other[OF assms(1)] seed_structural_other[OF assms(2)]
    by (auto simp: edge_pass_def map_of_decay option.map_ident split: option.split)
qed

theorem absent_workloads_are_frozen_witness:
  "map_of (edge_pass default_config None {''db''} 900 [] one_pass) (''logger'', ''db'', ''psi_io'') =
   map_of one_pass (''logger'', ''db'', ''psi_io'')"
  by (rule absent_workloads_are_frozen) (simp_all add: decays_def)

end
