(* ===== verification/Edge_Spec.thy ===== *)
theory Edge_Spec
  imports Edge_Memory
begin

text \<open>
  What a pass promises of the edge memory, row by row: an abstract memory is a partial map from keys to
  rows, and a pass changes each row by itself, as a function of its old value, of the witness (is the
  pair seeded?) and of the pass's edges with that key, in their order. The table operations of
  \<open>Edge_Memory\<close> refine this: the order in which the witness's set is iterated, the positions of
  replaced rows and the presence of other rows make no difference.
\<close>

definition seeded :: "config \<Rightarrow> witness option \<Rightarrow> workload set \<Rightarrow> ekey \<Rightarrow> bool" where
  "seeded cfg w present k \<longleftrightarrow>
     (case w of None \<Rightarrow> False
      | Some w \<Rightarrow> decays cfg {} present k \<and>
          (\<exists>pair \<in> set (shared_relation w). sorted_list_of_set (stable_workload ` pair) = [fst k, fst (snd k)]))"

definition seed_row :: "config \<Rightarrow> real \<Rightarrow> erow option \<Rightarrow> erow option" where
  "seed_row cfg ts row =
     (case row of
        None \<Rightarrow> Some \<lparr>er_conf = c_prior cfg, er_r = 0, er_lag = 0, er_evidence = [Pvc], er_hits = 0,
                  er_visible = False, er_state = Steady, er_first = ts, er_last = ts, er_updated = ts, er_base = c_prior cfg\<rparr>
      | Some x \<Rightarrow> Some (if er_base x < c_prior cfg then x\<lparr>er_base := c_prior cfg\<rparr> else x))"

definition confirm_row :: "config \<Rightarrow> real \<Rightarrow> edge \<Rightarrow> erow option \<Rightarrow> erow option" where
  "confirm_row cfg ts e row =
     (let conf = (case row of None \<Rightarrow> c_alpha cfg | Some x \<Rightarrow> raise_conf cfg (er_conf x));
          vis = ((case row of None \<Rightarrow> False | Some x \<Rightarrow> er_visible x) \<or> c_show cfg \<le> conf)
      in Some \<lparr>er_conf = conf, er_r = e_r e, er_lag = e_lag e, er_evidence = e_evidence e,
           er_hits = (case row of None \<Rightarrow> 1 | Some x \<Rightarrow> er_hits x + 1), er_visible = vis,
           er_state = (if vis then Active else Confirming), er_first = (case row of None \<Rightarrow> ts | Some x \<Rightarrow> er_first x),
           er_last = ts, er_updated = ts,
           er_base = max (case row of None \<Rightarrow> 0 | Some x \<Rightarrow> er_base x) (c_floor_frac cfg * conf)\<rparr>)"

definition pass_spec ::
  "config \<Rightarrow> witness option \<Rightarrow> workload set \<Rightarrow> real \<Rightarrow> edge list \<Rightarrow> (ekey \<Rightarrow> erow option) \<Rightarrow> ekey \<Rightarrow> erow option" where
  "pass_spec cfg w present ts es m k =
     map_option (\<lambda>row. if decays cfg (set (List.map (edge_key cfg) es)) present k then decay_row cfg ts row else row)
       (fold (confirm_row cfg ts) (filter (\<lambda>e. edge_key cfg e = k) es)
         (if seeded cfg w present k then seed_row cfg ts (m k) else m k))"

section \<open>The simulation, operation by operation\<close>

lemma confirm_edge_refines:
  "map_of (confirm_edge cfg ts e t) k = (if k = edge_key cfg e then confirm_row cfg ts e (map_of t k) else map_of t k)"
  by (auto simp: confirm_edge_def confirm_row_def Let_def split: option.split)

lemma confirm_edges_refine:
  "map_of (fold (confirm_edge cfg ts) es t) k =
   fold (confirm_row cfg ts) (filter (\<lambda>e. edge_key cfg e = k) es) (map_of t k)"
  by (induction es arbitrary: t) (auto simp: confirm_edge_refines)

definition seeds_key :: "config \<Rightarrow> workload set \<Rightarrow> pod set \<Rightarrow> ekey \<Rightarrow> bool" where
  "seeds_key cfg present pair k \<longleftrightarrow>
     decays cfg {} present k \<and> sorted_list_of_set (stable_workload ` pair) = [fst k, fst (snd k)]"

lemma seed_pair_refines:
  "map_of (seed_pair cfg present ts pair t) k =
     (if seeds_key cfg present pair k then seed_row cfg ts (map_of t k) else map_of t k)"
proof (cases "\<exists>a b. sorted_list_of_set (stable_workload ` pair) = [a, b]")
  case True
  then obtain a b where ab: "sorted_list_of_set (stable_workload ` pair) = [a, b]" by blast
  show ?thesis
  proof (cases "k = (a, b, c_signal cfg)")
    case True
    then show ?thesis
      by (auto simp: seed_pair_def seeds_key_def seed_row_def decays_def ab Let_def split: option.split)
  next
    case False
    then have "\<not> seeds_key cfg present pair k" by (cases k) (auto simp: seeds_key_def decays_def ab)
    with False show ?thesis by (auto simp: seed_pair_def ab Let_def split: option.split)
  qed
next
  case False
  then show ?thesis by (auto simp: seed_pair_def seeds_key_def split: list.split)
qed

text \<open>Seeding twice is seeding once, so the iteration order and repetitions do not matter.\<close>

lemma seed_row_idem [simp]: "seed_row cfg ts (seed_row cfg ts x) = seed_row cfg ts x"
  by (auto simp: seed_row_def split: option.split)

lemma seed_pairs_refine:
  "map_of (fold (seed_pair cfg present ts) ps t) k =
     (if \<exists>pair \<in> set ps. seeds_key cfg present pair k then seed_row cfg ts (map_of t k) else map_of t k)"
  by (induction ps arbitrary: t) (auto simp: seed_pair_refines)

lemma edge_pass_row: "map_of (edge_pass cfg w present ts es t) k = pass_spec cfg w present ts es (map_of t) k"
proof -
  have "map_of (case w of None \<Rightarrow> t | Some w \<Rightarrow> seed_structural cfg w present ts t) k =
      (if seeded cfg w present k then seed_row cfg ts (map_of t k) else map_of t k)"
    by (cases w) (auto simp: seeded_def seed_structural_def seed_pairs_refine seeds_key_def)
  then show ?thesis by (simp add: edge_pass_def pass_spec_def map_of_decay confirm_edges_refine)
qed

text \<open>The correlations the memory holds stay correlations.\<close>

definition corr_row :: "erow option \<Rightarrow> bool" where
  "corr_row row \<longleftrightarrow> (\<forall>x. row = Some x \<longrightarrow> \<bar>er_r x\<bar> \<le> 1)"

lemma pass_spec_corr:
  assumes "corr_row (m k)" "\<forall>e \<in> set es. \<bar>e_r e\<bar> \<le> 1"
  shows "corr_row (pass_spec cfg w present ts es m k)"
proof -
  have confirm: "corr_row (fold (confirm_row cfg ts) ds row)" if "corr_row row" "\<forall>e \<in> set ds. \<bar>e_r e\<bar> \<le> 1" for ds row
    using that
  proof (induction ds arbitrary: row)
    case (Cons e ds)
    have "corr_row (confirm_row cfg ts e row)" using Cons.prems by (simp add: corr_row_def confirm_row_def Let_def)
    with Cons show ?case by simp
  qed simp
  have "corr_row row \<Longrightarrow> corr_row (seed_row cfg ts row)" for row
    by (cases row) (simp_all add: corr_row_def seed_row_def)
  then have "corr_row (if seeded cfg w present k then seed_row cfg ts (m k) else m k)"
    using assms(1) by simp
  then have "corr_row (fold (confirm_row cfg ts) (filter (\<lambda>e. edge_key cfg e = k) es)
      (if seeded cfg w present k then seed_row cfg ts (m k) else m k))"
    using assms(2) by (intro confirm) auto
  moreover have "corr_row (map_option (\<lambda>x. if b then decay_row cfg ts x else x) row)" if "corr_row row" for b row
    using that by (cases row) (simp_all add: corr_row_def decay_row_def Let_def)
  ultimately show ?thesis unfolding pass_spec_def by blast
qed

section \<open>Properties\<close>

text \<open>C17. The table implements the abstract memory: reading any row after a pass gives what the row-wise
  specification computes from the rows read before it. Rows do not influence each other, and neither
  the iteration order of the witness nor the layout of the table is visible.\<close>

theorem edge_pass_refines:
  "map_of (edge_pass cfg w present ts es t) = pass_spec cfg w present ts es (map_of t)"
  by (rule ext) (rule edge_pass_row)

end
