(* ===== verification/Baselines.thy ===== *)
theory Baselines
  imports Edge_Memory Num_Lib
begin

text \<open>
  The learned steady state of each workload: \<open>update_baselines\<close> and \<open>baseline_threshold\<close> of
  \<open>src/correlation/engine/state.py\<close>, on the rows of the \<open>baselines\<close> table keyed by workload and signal.
\<close>

record brow =
  b_median :: real
  b_mad :: real
  b_n :: nat
  b_updated :: real

type_synonym btable = "(workload \<times> string, brow) table"

definition blend :: "config \<Rightarrow> real \<Rightarrow> real \<Rightarrow> real" where
  "blend cfg new old = (1 - c_base_alpha cfg) * old + c_base_alpha cfg * new"

definition mad_of :: "numlib \<Rightarrow> vec \<Rightarrow> real" where
  "mad_of np vec = np_median np (List.map (\<lambda>v. \<bar>v - np_median np vec\<bar>) vec)"

definition storming :: "numlib \<Rightarrow> config \<Rightarrow> vec \<Rightarrow> brow \<Rightarrow> bool" where
  "storming np cfg vec row \<longleftrightarrow> b_n row \<ge> c_base_min_n cfg \<and>
     np_percentile np vec 90 > b_median row + c_dev_k cfg * max (b_mad row) (c_mad_floor cfg)"

definition update_baseline :: "numlib \<Rightarrow> config \<Rightarrow> real \<Rightarrow> pod \<times> vec \<Rightarrow> btable \<Rightarrow> btable" where
  "update_baseline np cfg ts pv t =
     (case pv of (p, vec) \<Rightarrow>
        if length vec < 12 then t
        else
         (let k = (stable_workload p, c_signal cfg); med = np_median np vec; mad = mad_of np vec in
          case map_of t k of
            None \<Rightarrow> row_put t k \<lparr>b_median = med, b_mad = mad, b_n = 1, b_updated = ts\<rparr>
          | Some row \<Rightarrow>
              (if storming np cfg vec row then t
               else row_put t k \<lparr>b_median = blend cfg med (b_median row), b_mad = blend cfg mad (b_mad row),
                      b_n = b_n row + 1, b_updated = ts\<rparr>)))"

definition update_baselines :: "numlib \<Rightarrow> config \<Rightarrow> (pod, vec) dict \<Rightarrow> real \<Rightarrow> btable \<Rightarrow> btable" where
  "update_baselines np cfg vectors ts t = fold (update_baseline np cfg ts) vectors t"

definition baseline_threshold :: "config \<Rightarrow> btable \<Rightarrow> workload \<Rightarrow> real option" where
  "baseline_threshold cfg t wl =
     (case map_of t (wl, c_signal cfg) of
        None \<Rightarrow> None
      | Some row \<Rightarrow>
          (if b_n row < c_base_min_n cfg then None
           else Some (b_median row + c_dev_k cfg * max (b_mad row) (c_mad_floor cfg))))"

section \<open>Lemmas\<close>

text \<open>Learning a level is a relaxation towards it.\<close>

interpretation learning: relaxation "blend cfg new" "c_base_alpha cfg" new for cfg new
  by unfold_locales (simp add: blend_def algebra_simps)

lemma update_baseline_other:
  "k \<noteq> (stable_workload p, c_signal cfg) \<Longrightarrow> map_of (update_baseline np cfg ts (p, vec) t) k = map_of t k"
  by (simp add: update_baseline_def Let_def upserted.put_other split: option.split)

lemma update_baseline_row:
  assumes "12 \<le> length vec" "map_of t (stable_workload p, c_signal cfg) = Some row" "\<not> storming np cfg vec row"
  shows "map_of (update_baseline np cfg ts (p, vec) t) (stable_workload p, c_signal cfg) =
    Some \<lparr>b_median = blend cfg (np_median np vec) (b_median row), b_mad = blend cfg (mad_of np vec) (b_mad row),
      b_n = b_n row + 1, b_updated = ts\<rparr>"
  using assms by (simp add: update_baseline_def Let_def upserted.put_same)

lemma update_baseline_storm:
  "map_of t (stable_workload p, c_signal cfg) = Some row \<Longrightarrow> storming np cfg vec row \<Longrightarrow>
   update_baseline np cfg ts (p, vec) t = t"
  by (simp add: update_baseline_def Let_def)

definition evidence_of :: "workload \<Rightarrow> (pod \<times> vec) list \<Rightarrow> nat" where
  "evidence_of wl obs = length (filter (\<lambda>pv. stable_workload (fst pv) = wl) obs)"

lemma update_baselines_count:
  "map_of (fold (update_baseline np cfg ts) obs []) (wl, c_signal cfg) = Some row \<Longrightarrow> b_n row \<le> evidence_of wl obs"
proof (induction obs arbitrary: row rule: rev_induct)
  case (snoc pv obs)
  obtain p vec where pv: "pv = (p, vec)" by (cases pv)
  show ?case
  proof (cases "stable_workload p = wl")
    case False
    then have "b_n row \<le> evidence_of wl obs"
      using snoc update_baseline_other[of "(wl, c_signal cfg)" p cfg] by (simp add: pv)
    with False show ?thesis by (simp add: evidence_of_def pv)
  next
    case True
    with snoc show ?thesis
      by (auto simp: pv update_baseline_def Let_def evidence_of_def split: if_splits option.splits)
  qed
qed simp

text \<open>What learning one observation means for the table.\<close>

definition learns :: "numlib \<Rightarrow> config \<Rightarrow> real \<Rightarrow> pod \<Rightarrow> vec \<Rightarrow> btable \<Rightarrow> btable \<Rightarrow> bool" where
  "learns np cfg ts p vec t t' \<longleftrightarrow>
     map_of t' (stable_workload p, c_signal cfg) =
       Some (case map_of t (stable_workload p, c_signal cfg) of
               None \<Rightarrow> \<lparr>b_median = np_median np vec, b_mad = mad_of np vec, b_n = 1, b_updated = ts\<rparr>
             | Some row \<Rightarrow> \<lparr>b_median = blend cfg (np_median np vec) (b_median row), b_mad = blend cfg (mad_of np vec) (b_mad row),
                 b_n = b_n row + 1, b_updated = ts\<rparr>) \<and>
     (\<forall>k. k \<noteq> (stable_workload p, c_signal cfg) \<longrightarrow> map_of t' k = map_of t k)"

lemma update_baseline_gate:
  assumes "12 \<le> length vec"
  shows "(case baseline_threshold cfg t (stable_workload p) of
      Some thr \<Rightarrow> thr < np_percentile np vec 90 \<and> update_baseline np cfg ts (p, vec) t = t \<or>
        np_percentile np vec 90 \<le> thr \<and> learns np cfg ts p vec t (update_baseline np cfg ts (p, vec) t)
    | None \<Rightarrow> learns np cfg ts p vec t (update_baseline np cfg ts (p, vec) t))"
proof (cases "map_of t (stable_workload p, c_signal cfg)")
  case None
  then show ?thesis using assms
    by (simp add: baseline_threshold_def update_baseline_def Let_def learns_def upserted.put_same upserted.put_other)
next
  case (Some row)
  show ?thesis
  proof (cases "storming np cfg vec row")
    case True
    with Some show ?thesis by (simp add: baseline_threshold_def storming_def update_baseline_storm)
  next
    case False
    then have "learns np cfg ts p vec t (update_baseline np cfg ts (p, vec) t)"
      using Some assms by (simp add: learns_def update_baseline_row update_baseline_other)
    with False Some show ?thesis by (auto simp: baseline_threshold_def storming_def)
  qed
qed

section \<open>Properties\<close>

text \<open>Baselines move slowly and only their own row: one observation of at least twelve samples that is
  not skipped as a storm moves the stored median by exactly \<open>base_alpha\<close> of its distance to the observed
  median, never past it, and leaves every other row alone.\<close>

theorem baseline_moves_slowly:
  assumes "0 \<le> c_base_alpha cfg" "c_base_alpha cfg \<le> 1" "12 \<le> length vec"
    and "map_of t (stable_workload p, c_signal cfg) = Some row" "\<not> storming np cfg vec row"
  shows "\<exists>row'. map_of (update_baseline np cfg ts (p, vec) t) (stable_workload p, c_signal cfg) = Some row' \<and> b_n row' = b_n row + 1 \<and>
    b_median row' - b_median row = c_base_alpha cfg * (np_median np vec - b_median row) \<and>
    min (b_median row) (np_median np vec) \<le> b_median row' \<and> b_median row' \<le> max (b_median row) (np_median np vec) \<and>
    \<bar>np_median np vec - b_median row'\<bar> \<le> \<bar>np_median np vec - b_median row\<bar> \<and>
    (\<forall>k. k \<noteq> (stable_workload p, c_signal cfg) \<longrightarrow> map_of (update_baseline np cfg ts (p, vec) t) k = map_of t k)"
  unfolding update_baseline_row[OF assms(3-5)]
  using learning.update_eq[of cfg "np_median np vec" "b_median row"] update_baseline_other[of _ p cfg np ts vec t]
    learning.between[OF assms(1,2), where x = "b_median row" and new = "np_median np vec"]
    learning.approaches[OF assms(1,2), where x = "b_median row" and new = "np_median np vec"]
  by auto

definition calm_row :: brow where
  "calm_row = \<lparr>b_median = 1, b_mad = 0, b_n = 12, b_updated = 0\<rparr>"

lemma slight_rise_not_storming: "\<not> storming quick_num default_config (replicate 12 (51 / 50)) calm_row"
  by code_simp

theorem baseline_moves_slowly_witness:
  "\<exists>row'. map_of (update_baseline quick_num default_config 5 (''db-x-1'', replicate 12 (51 / 50)) [((''db'', ''psi_io''), calm_row)]) (''db'', ''psi_io'') = Some row' \<and>
     b_median row' - 1 = 5 / 100 * (51 / 50 - 1)"
proof -
  have wl: "stable_workload ''db-x-1'' = ''db''" by code_simp
  have med: "np_median quick_num (replicate 12 (51 / 50)) = 51 / 50" by code_simp
  show ?thesis
    using baseline_moves_slowly[of default_config "replicate 12 (51 / 50)" "[((''db'', ''psi_io''), calm_row)]" "''db-x-1''" calm_row quick_num 5]
      slight_rise_not_storming
    unfolding wl med by (auto simp: default_config_def calm_row_def)
qed

text \<open>No threshold without evidence: from an empty database, a workload has no incident threshold, and so
  can never be a finding, until it was observed at least \<open>base_min_n\<close> times, storms not counted.\<close>

theorem threshold_needs_evidence:
  assumes "evidence_of wl obs < c_base_min_n cfg"
  shows "baseline_threshold cfg (fold (update_baseline np cfg ts) obs []) wl = None"
proof (cases "map_of (fold (update_baseline np cfg ts) obs []) (wl, c_signal cfg)")
  case (Some row)
  from update_baselines_count[OF this] assms Some show ?thesis by (simp add: baseline_threshold_def)
qed (simp add: baseline_threshold_def)

theorem threshold_needs_evidence_witness:
  "baseline_threshold default_config (fold (update_baseline quick_num default_config 0) [(''db-x-1'', [1])] []) ''db'' = None"
  by (rule threshold_needs_evidence) (simp add: evidence_of_def default_config_def)



end
