(* ===== verification/Digraph_Lib.thy ===== *)
theory Digraph_Lib
  imports Gate
begin

text \<open>
  The part of networkx that the engine calls, as a record of parameters over an abstract type
  \<open>'g\<close> of directed graphs, with the documented behaviour of \<open>DiGraph\<close> as the hypothesis
  \<open>digraph_laws\<close>: nodes and out-edges are kept in insertion order, and adding an existing edge
  updates its data in place. \<open>log_nx\<close> is a concrete instance, the log of the added edges.
\<close>

record edata =
  ed_weight :: real
  ed_lag :: nat
  ed_evidence :: "ev list"

record 'g nxlib =
  nx_new :: 'g
  nx_add_edge :: "'g \<Rightarrow> pod \<Rightarrow> pod \<Rightarrow> edata \<Rightarrow> 'g"
  nx_nodes :: "'g \<Rightarrow> pod list"
  nx_out_edges :: "'g \<Rightarrow> pod \<Rightarrow> (pod \<times> edata) list"
  nx_in_degree :: "'g \<Rightarrow> pod \<Rightarrow> nat"
  nx_number_of_edges :: "'g \<Rightarrow> nat"

definition add_node :: "pod list \<Rightarrow> pod \<Rightarrow> pod list" where
  "add_node ns n = (if n \<in> set ns then ns else ns @ [n])"

definition digraph_laws :: "'g nxlib \<Rightarrow> bool" where
  "digraph_laws nx \<longleftrightarrow>
     nx_nodes nx (nx_new nx) = [] \<and>
     (\<forall>n. nx_out_edges nx (nx_new nx) n = []) \<and>
     (\<forall>n. nx_in_degree nx (nx_new nx) n = 0) \<and>
     nx_number_of_edges nx (nx_new nx) = 0 \<and>
     (\<forall>g u v d. nx_nodes nx (nx_add_edge nx g u v d) = add_node (add_node (nx_nodes nx g) u) v) \<and>
     (\<forall>g u v d n. nx_out_edges nx (nx_add_edge nx g u v d) n =
        (if n = u then AList.update v d (nx_out_edges nx g u) else nx_out_edges nx g n)) \<and>
     (\<forall>g u v d n. nx_in_degree nx (nx_add_edge nx g u v d) n =
        nx_in_degree nx g n + (if n = v \<and> v \<notin> fst ` set (nx_out_edges nx g u) then 1 else 0)) \<and>
     (\<forall>g u v d. nx_number_of_edges nx (nx_add_edge nx g u v d) =
        nx_number_of_edges nx g + (if v \<notin> fst ` set (nx_out_edges nx g u) then 1 else 0))"

lemma set_add_node [simp]: "set (add_node ns n) = insert n (set ns)"
  by (auto simp: add_node_def)

lemma distinct_add_node: "distinct ns \<Longrightarrow> distinct (add_node ns n)"
  by (simp add: add_node_def)

section \<open>A concrete instance\<close>

type_synonym glog = "(pod \<times> pod \<times> edata) list"

definition log_out :: "glog \<Rightarrow> pod \<Rightarrow> (pod \<times> edata) list" where
  "log_out g n = fold (\<lambda>(u, v, d) out. if u = n then AList.update v d out else out) g []"

definition log_in_degree :: "glog \<Rightarrow> pod \<Rightarrow> nat" where
  "log_in_degree g n = card ((\<lambda>(u, v, d). u) ` set (filter (\<lambda>(u, v, d). v = n) g))"

definition log_size :: "glog \<Rightarrow> nat" where
  "log_size g = card ((\<lambda>(u, v, d). (u, v)) ` set g)"

definition log_nodes :: "glog \<Rightarrow> pod list" where
  "log_nodes g = fold (\<lambda>(u, v, d) ns. add_node (add_node ns u) v) g []"

definition log_nx :: "glog nxlib" where
  "log_nx = \<lparr>nx_new = [], nx_add_edge = (\<lambda>g u v d. g @ [(u, v, d)]), nx_nodes = log_nodes,
     nx_out_edges = log_out, nx_in_degree = log_in_degree, nx_number_of_edges = log_size\<rparr>"

lemma log_out_keys: "fst ` set (log_out g n) = {v. \<exists>d. (n, v, d) \<in> set g}"
  unfolding log_out_def
proof (induction g rule: rev_induct)
  case (snoc x g)
  then show ?case by (cases x) auto
qed simp

lemma log_in_degree_snoc:
  "log_in_degree (g @ [(u, v, d)]) n =
   log_in_degree g n + (if n = v \<and> v \<notin> fst ` set (log_out g u) then 1 else 0)"
proof -
  have "v \<notin> fst ` set (log_out g u) \<longleftrightarrow> u \<notin> (\<lambda>(u, v, d). u) ` set (filter (\<lambda>(u, w, d). w = v) g)"
    by (force simp: log_out_keys)
  then show ?thesis by (auto simp: log_in_degree_def card_insert_if simp del: set_filter)
qed

lemma log_size_snoc:
  "log_size (g @ [(u, v, d)]) = log_size g + (if v \<notin> fst ` set (log_out g u) then 1 else 0)"
proof -
  have "v \<notin> fst ` set (log_out g u) \<longleftrightarrow> (u, v) \<notin> (\<lambda>(u, v, d). (u, v)) ` set g"
    by (force simp: log_out_keys)
  then show ?thesis by (auto simp: log_size_def card_insert_if)
qed

lemma log_nx_laws: "digraph_laws log_nx"
proof -
  have "log_out (g @ [(u, v, d)]) n = (if n = u then AList.update v d (log_out g u) else log_out g n)" for g n u v d
    by (simp add: log_out_def)
  moreover have "log_nodes (g @ [(u, v, d)]) = add_node (add_node (log_nodes g) u) v" for g u v d
    by (simp add: log_nodes_def)
  moreover have "log_out [] n = [] \<and> log_in_degree [] n = 0 \<and> log_size [] = 0 \<and> log_nodes [] = []" for n
    by (simp add: log_out_def log_in_degree_def log_size_def log_nodes_def)
  ultimately show ?thesis
    by (simp add: digraph_laws_def log_nx_def log_in_degree_snoc log_size_snoc)
qed

end
