(* ===== verification/Ranking.thy ===== *)
theory Ranking
  imports Digraph_Lib "HOL-Library.Multiset"
begin

text \<open>
  Root-cause ranking and blast radius of \<open>src/correlation/engine/ranking.py\<close>. The two worklist
  loops are \<open>partial_function (option)\<close>: \<open>None\<close> is a loop that never returns, which a cycle of
  weights above \<open>1 / DECAY\<close> would cause. They are proved to return on the graphs the engine builds,
  whose weights are absolute correlations.
\<close>

definition DECAY :: real where "DECAY = 0.7"
definition CUT :: real where "CUT = 0.15"
definition UPSTREAM_PENALTY :: real where "UPSTREAM_PENALTY = 0.5"

definition add_edge_of :: "'g nxlib \<Rightarrow> 'a edge_scheme \<Rightarrow> 'g \<Rightarrow> 'g" where
  "add_edge_of nx e g = nx_add_edge nx g (e_src e) (e_dst e)
     \<lparr>ed_weight = \<bar>e_r e\<bar>, ed_lag = e_lag e, ed_evidence = e_evidence e\<rparr>"

definition build_graph :: "'g nxlib \<Rightarrow> 'a edge_scheme list \<Rightarrow> 'g" where
  "build_graph nx edges = fold (add_edge_of nx) edges (nx_new nx)"

section \<open>Forward impact\<close>

type_synonym outs = "pod \<Rightarrow> (pod \<times> edata) list"
type_synonym impact = "(pod, real) dict"

fun relax :: "real \<Rightarrow> (pod \<times> edata) list \<Rightarrow> impact \<Rightarrow> (pod \<times> real) list \<Rightarrow> impact \<times> (pod \<times> real) list" where
  "relax w [] imp fr = (imp, fr)"
| "relax w ((nxt, data) # os) imp fr =
     (let nw = w * ed_weight data * DECAY in
      if nw < CUT \<or> nw \<le> dict_get imp nxt 0 then relax w os imp fr
      else relax w os (AList.update nxt nw imp) (fr @ [(nxt, nw)]))"

partial_function (option) impact_loop :: "outs \<Rightarrow> (pod \<times> real) list \<Rightarrow> impact \<Rightarrow> impact option" where
  "impact_loop out frontier imp =
     (case frontier of
        [] \<Rightarrow> Some imp
      | (node, w) # fr \<Rightarrow> (case relax w (out node) imp fr of (imp', fr') \<Rightarrow> impact_loop out fr' imp'))"

definition forward_impact :: "'g nxlib \<Rightarrow> 'g \<Rightarrow> pod \<Rightarrow> impact outcome" where
  "forward_impact nx g rt = of_option (impact_loop (nx_out_edges nx g) [(rt, 1)] [])"

section \<open>Ranking\<close>

record root_cause =
  rc_pod :: pod
  rc_score :: real
  rc_onset :: "real option"

definition seed_set_of :: "'g nxlib \<Rightarrow> 'g \<Rightarrow> pod list \<Rightarrow> pod set" where
  "seed_set_of nx g seeds =
     (let ss = filter (\<lambda>s. s \<in> set (nx_nodes nx g)) seeds
      in if ss = [] then set (nx_nodes nx g) else set ss)"

definition explain_score :: "'g nxlib \<Rightarrow> 'g \<Rightarrow> pod set \<Rightarrow> pod \<Rightarrow> impact \<Rightarrow> real" where
  "explain_score nx g seed_set n imp =
     (let explain = sum_list (List.map snd (filter (\<lambda>(s, v). s \<in> seed_set) imp));
          explain = (if n \<in> seed_set \<and> nx_in_degree nx g n = 0 then explain + 1 else explain)
      in if nx_in_degree nx g n > 0 then explain * UPSTREAM_PENALTY else explain)"

definition root_scores :: "'g nxlib \<Rightarrow> 'g \<Rightarrow> pod list \<Rightarrow> (pod \<times> real) list outcome" where
  "root_scores nx g seeds =
     obind (omap (\<lambda>n. obind (forward_impact nx g n)
                        (\<lambda>imp. Ret (n, explain_score nx g (seed_set_of nx g seeds) n imp))) (nx_nodes nx g))
       (\<lambda>scored. Ret (filter (\<lambda>(n, sc). sc > 0) scored))"

text \<open>\<open>onset_s.get(pod, inf)\<close> as a sort key: a missing onset comes last.\<close>

definition onset_key :: "onsets \<Rightarrow> pod \<Rightarrow> nat \<times> real" where
  "onset_key onset_s p = (case map_of onset_s p of None \<Rightarrow> (1, 0) | Some t \<Rightarrow> (0, t))"

definition rank_root_causes :: "'g nxlib \<Rightarrow> 'g \<Rightarrow> pod list \<Rightarrow> onsets \<Rightarrow> nat \<Rightarrow> root_cause list outcome" where
  "rank_root_causes nx g seeds onset_s top_n =
     (if nx_number_of_edges nx g = 0 then Ret []
      else obind (root_scores nx g seeds) (\<lambda>scores.
        if scores = [] then Ret []
        else
         (let total = sum_list (List.map snd scores);
              ranked = sort_key (\<lambda>kv. (- snd kv, onset_key onset_s (fst kv))) scores
          in Ret (List.map (\<lambda>(p, sc). \<lparr>rc_pod = p, rc_score = py_round 3 (sc / total), rc_onset = map_of onset_s p\<rparr>)
               (take top_n ranked)))))"

section \<open>Blast radius\<close>

record victim =
  v_pod :: pod
  v_impact :: real
  v_eta :: nat

fun blast_scan :: "real \<Rightarrow> nat \<Rightarrow> (pod \<times> edata) list \<Rightarrow> pod set \<Rightarrow> (pod \<times> real \<times> nat) list" where
  "blast_scan w eta [] seen = []"
| "blast_scan w eta ((nxt, data) # os) seen =
     (let nw = w * ed_weight data * DECAY in
      if nxt \<in> seen \<or> nw < CUT then blast_scan w eta os seen
      else (nxt, nw, eta + ed_lag data) # blast_scan w eta os (insert nxt seen))"

partial_function (option) blast_loop ::
  "outs \<Rightarrow> (pod \<times> real \<times> nat) list \<Rightarrow> pod set \<Rightarrow> (pod \<times> real \<times> nat) list \<Rightarrow> (pod \<times> real \<times> nat) list option" where
  "blast_loop out frontier seen acc =
     (case frontier of
        [] \<Rightarrow> Some acc
      | (node, w, eta) # fr \<Rightarrow>
         (let new = blast_scan w eta (out node) seen
          in blast_loop out (fr @ new) (seen \<union> fst ` set new) (acc @ new)))"

declare impact_loop.simps [code] blast_loop.simps [code]

definition blast_radius :: "'g nxlib \<Rightarrow> 'g \<Rightarrow> pod \<Rightarrow> victim list outcome" where
  "blast_radius nx g rt =
     (if rt \<notin> set (nx_nodes nx g) then Ret []
      else obind (of_option (blast_loop (nx_out_edges nx g) [(rt, 1, 0)] {rt} []))
        (\<lambda>acc. Ret (sort_key (\<lambda>d. - v_impact d)
           (List.map (\<lambda>(p, nw, eta). \<lparr>v_pod = p, v_impact = py_round 3 nw, v_eta = eta\<rparr>) acc))))"

section \<open>What a built graph looks like\<close>

lemma build_graph_snoc: "build_graph nx (es @ [e]) = add_edge_of nx e (build_graph nx es)"
  by (simp add: build_graph_def)

lemma build_graph_out:
  assumes laws: "digraph_laws nx" and mem: "(v, d) \<in> set (nx_out_edges nx (build_graph nx es) n)"
  shows "\<exists>e \<in> set es. e_src e = n \<and> e_dst e = v \<and> ed_weight d = \<bar>e_r e\<bar> \<and> ed_lag d = e_lag e"
  using mem
proof (induction es rule: rev_induct)
  case Nil
  with laws show ?case by (simp add: build_graph_def digraph_laws_def)
next
  case (snoc e es)
  let ?d = "\<lparr>ed_weight = \<bar>e_r e\<bar>, ed_lag = e_lag e, ed_evidence = e_evidence e\<rparr>"
  have upd: "(v, d) \<in> set (AList.update k x xs) \<Longrightarrow> (v, d) = (k, x) \<or> (v, d) \<in> set xs" for k x and xs :: "(pod \<times> edata) list"
    by (induction xs) (auto split: if_splits)
  from snoc.prems laws have "(v, d) \<in> set (if n = e_src e
      then AList.update (e_dst e) ?d (nx_out_edges nx (build_graph nx es) (e_src e))
      else nx_out_edges nx (build_graph nx es) n)"
    by (simp add: build_graph_snoc add_edge_of_def digraph_laws_def)
  then have "(n = e_src e \<and> v = e_dst e \<and> d = ?d) \<or> (v, d) \<in> set (nx_out_edges nx (build_graph nx es) n)"
    by (auto split: if_splits dest: upd)
  then show ?case using snoc.IH by auto
qed

lemma build_graph_nodes:
  "digraph_laws nx \<Longrightarrow> set (nx_nodes nx (build_graph nx es)) = e_src ` set es \<union> e_dst ` set es \<and>
     distinct (nx_nodes nx (build_graph nx es))"
  by (induction es rule: rev_induct)
    (auto simp: build_graph_snoc add_edge_of_def digraph_laws_def distinct_add_node, simp_all add: build_graph_def)

lemma build_graph_no_edges: "digraph_laws nx \<Longrightarrow> nx_number_of_edges nx (build_graph nx es) = 0 \<longleftrightarrow> es = []"
proof (induction es rule: rev_induct)
  case Nil
  then show ?case by (simp add: build_graph_def digraph_laws_def)
next
  case (snoc e es)
  then have IH: "nx_number_of_edges nx (build_graph nx es) = 0 \<longleftrightarrow> es = []" by simp
  have "es = [] \<Longrightarrow> nx_out_edges nx (build_graph nx es) (e_src e) = []"
    using snoc.prems by (simp add: build_graph_def digraph_laws_def)
  then show ?case
    using snoc.prems IH by (auto simp: build_graph_snoc add_edge_of_def digraph_laws_def)
qed

definition weights_ok :: "outs \<Rightarrow> bool" where
  "weights_ok out \<longleftrightarrow> (\<forall>u v d. (v, d) \<in> set (out u) \<longrightarrow> 0 \<le> ed_weight d \<and> ed_weight d \<le> 1)"

lemma build_graph_weights_ok:
  "digraph_laws nx \<Longrightarrow> \<forall>e \<in> set es. \<bar>e_r e\<bar> \<le> 1 \<Longrightarrow> weights_ok (nx_out_edges nx (build_graph nx es))"
  unfolding weights_ok_def by (auto dest: build_graph_out)

section \<open>Decayed walks, and the impact loop\<close>

text \<open>\<open>walk out a v x t\<close>: some walk of at least one edge from \<open>a\<close> to \<open>v\<close> has decayed weight \<open>x\<close> and
  lags summing to \<open>t\<close>.\<close>

inductive walk :: "outs \<Rightarrow> pod \<Rightarrow> pod \<Rightarrow> real \<Rightarrow> nat \<Rightarrow> bool" for out a where
  hop: "(v, d) \<in> set (out a) \<Longrightarrow> walk out a v (ed_weight d * DECAY) (ed_lag d)"
| step: "walk out a u x t \<Longrightarrow> (v, d) \<in> set (out u) \<Longrightarrow>
    walk out a v (x * ed_weight d * DECAY) (t + ed_lag d)"

lemma CUT_pos: "CUT > 0" and DECAY_bounds: "0 < DECAY" "DECAY < 1"
  by (simp_all add: CUT_def DECAY_def)

lemma hop_shrinks: "0 \<le> w \<Longrightarrow> 0 \<le> k \<Longrightarrow> k \<le> 1 \<Longrightarrow> w * k * DECAY \<le> w * DECAY \<and> w * k * DECAY \<le> w"
proof -
  assume w: "0 \<le> w" "0 \<le> k" "k \<le> 1"
  then have wk: "w * k \<le> w" "0 \<le> w * k" using mult_left_le[of k w] by auto
  then have "w * k * DECAY \<le> w * DECAY" using wk DECAY_bounds by (intro mult_right_mono) auto
  moreover have "w * k * DECAY \<le> w * k" using wk(2) DECAY_bounds by (intro mult_left_le) auto
  ultimately show ?thesis using wk by linarith
qed

text \<open>The number of hops a weight survives: it drops with every hop, so the worklist runs dry.\<close>

definition hops :: "real \<Rightarrow> nat" where
  "hops w = (LEAST n. w * DECAY ^ n < CUT)"

lemma hops_ex: "\<exists>n. w * DECAY ^ n < CUT"
proof (cases "w \<le> 0")
  case True
  then show ?thesis using CUT_pos by (intro exI[of _ 0]) simp
next
  case False
  obtain n where "DECAY ^ n < CUT / w"
    using real_arch_pow_inv[of "CUT / w" DECAY] False CUT_pos DECAY_bounds by auto
  then show ?thesis using False by (intro exI[of _ n]) (simp add: field_simps)
qed

lemma hops_less:
  assumes "0 \<le> w" "0 \<le> k" "k \<le> 1" "w * k * DECAY \<ge> CUT"
  shows "hops (w * k * DECAY) < hops w"
proof -
  have least: "w * DECAY ^ hops w < CUT" unfolding hops_def using hops_ex by (rule LeastI_ex)
  have "w \<ge> CUT" using hop_shrinks[OF assms(1-3)] assms(4) by linarith
  then obtain n where n: "hops w = Suc n" using least by (cases "hops w") auto
  have "w * k * DECAY * DECAY ^ n \<le> w * DECAY * DECAY ^ n"
    by (rule mult_right_mono) (use hop_shrinks[OF assms(1-3)] DECAY_bounds in auto)
  also have "\<dots> < CUT" using least by (simp add: n mult.assoc)
  finally have "hops (w * k * DECAY) \<le> n" unfolding hops_def by (rule Least_le)
  then show ?thesis by (simp add: n)
qed

lemma relax_spec:
  assumes "relax w os imp fr = (imp', fr')"
  shows "\<exists>new. fr' = fr @ new \<and>
    (\<forall>v x. (v, x) \<in> set new \<longrightarrow> (\<exists>d. (v, d) \<in> set os \<and> x = w * ed_weight d * DECAY \<and> x \<ge> CUT)) \<and>
    (\<forall>v x. map_of imp' v = Some x \<longrightarrow> map_of imp v = Some x \<or> (v, x) \<in> set new) \<and>
    (\<forall>v. dict_get imp v 0 \<le> dict_get imp' v 0) \<and>
    (\<forall>v d. (v, d) \<in> set os \<longrightarrow> w * ed_weight d * DECAY \<ge> CUT \<longrightarrow>
        w * ed_weight d * DECAY \<le> dict_get imp' v 0)"
  using assms
proof (induction os arbitrary: imp fr)
  case (Cons o1 os)
  obtain nxt data where o1: "o1 = (nxt, data)" by (cases o1)
  let ?nw = "w * ed_weight data * DECAY"
  show ?case
  proof (cases "?nw < CUT \<or> ?nw \<le> dict_get imp nxt 0")
    case True
    with Cons.prems have "relax w os imp fr = (imp', fr')" by (simp add: o1 Let_def)
    from Cons.IH[OF this] obtain new where new: "fr' = fr @ new"
      "\<And>v x. (v, x) \<in> set new \<Longrightarrow> \<exists>d. (v, d) \<in> set os \<and> x = w * ed_weight d * DECAY \<and> x \<ge> CUT"
      "\<And>v x. map_of imp' v = Some x \<Longrightarrow> map_of imp v = Some x \<or> (v, x) \<in> set new"
      "\<And>v. dict_get imp v 0 \<le> dict_get imp' v 0"
      "\<And>v d. (v, d) \<in> set os \<Longrightarrow> w * ed_weight d * DECAY \<ge> CUT \<Longrightarrow> w * ed_weight d * DECAY \<le> dict_get imp' v 0"
      by blast
    have "w * ed_weight d * DECAY \<le> dict_get imp' v 0"
      if "(v, d) \<in> set (o1 # os)" "w * ed_weight d * DECAY \<ge> CUT" for v d
      using that True new(4)[of nxt] new(5) by (auto simp: o1)
    with new show ?thesis by (intro exI[of _ new]) (auto simp: o1)
  next
    case False
    with Cons.prems have "relax w os (AList.update nxt ?nw imp) (fr @ [(nxt, ?nw)]) = (imp', fr')"
      by (simp add: o1 Let_def)
    from Cons.IH[OF this] obtain new where new: "fr' = (fr @ [(nxt, ?nw)]) @ new"
      "\<And>v x. (v, x) \<in> set new \<Longrightarrow> \<exists>d. (v, d) \<in> set os \<and> x = w * ed_weight d * DECAY \<and> x \<ge> CUT"
      "\<And>v x. map_of imp' v = Some x \<Longrightarrow> map_of (AList.update nxt ?nw imp) v = Some x \<or> (v, x) \<in> set new"
      "\<And>v. dict_get (AList.update nxt ?nw imp) v 0 \<le> dict_get imp' v 0"
      "\<And>v d. (v, d) \<in> set os \<Longrightarrow> w * ed_weight d * DECAY \<ge> CUT \<Longrightarrow> w * ed_weight d * DECAY \<le> dict_get imp' v 0"
      by blast
    have grow: "dict_get imp v 0 \<le> dict_get imp' v 0" for v
      using new(4)[of v] False by (cases "v = nxt") auto
    have closed: "w * ed_weight d * DECAY \<le> dict_get imp' v 0"
      if "(v, d) \<in> set (o1 # os)" "w * ed_weight d * DECAY \<ge> CUT" for v d
      using that new(4)[of nxt] new(5) by (auto simp: o1)
    have src: "map_of imp v = Some x \<or> (v, x) \<in> set ((nxt, ?nw) # new)" if "map_of imp' v = Some x" for v x
      using new(3)[OF that] by (auto split: if_splits)
    have mem: "\<exists>d. (v, d) \<in> set (o1 # os) \<and> x = w * ed_weight d * DECAY \<and> x \<ge> CUT"
      if "(v, x) \<in> set ((nxt, ?nw) # new)" for v x
      using that new(2) False by (auto simp: o1)
    show ?thesis
      using new(1) grow closed src mem by (intro exI[of _ "(nxt, ?nw) # new"]) simp
  qed
qed simp

text \<open>The loop's invariant: everything found is a walk above the cut, and whatever has left the
  worklist has been propagated to its successors.\<close>

definition found_ok :: "outs \<Rightarrow> pod \<Rightarrow> pod \<Rightarrow> real \<Rightarrow> bool" where
  "found_ok out a v x \<longleftrightarrow> CUT \<le> x \<and> (\<exists>t. walk out a v x t)"

definition propagated :: "outs \<Rightarrow> impact \<Rightarrow> pod \<Rightarrow> real \<Rightarrow> bool" where
  "propagated out imp u y \<longleftrightarrow> (\<forall>v d. (v, d) \<in> set (out u) \<longrightarrow> y * ed_weight d * DECAY \<ge> CUT \<longrightarrow>
     y * ed_weight d * DECAY \<le> dict_get imp v 0)"

definition impact_inv :: "outs \<Rightarrow> pod \<Rightarrow> (pod \<times> real) list \<Rightarrow> impact \<Rightarrow> bool" where
  "impact_inv out a fr imp \<longleftrightarrow>
     (\<forall>v x. (v, x) \<in> set fr \<longrightarrow> (v = a \<and> x = 1) \<or> found_ok out a v x) \<and>
     (\<forall>v x. map_of imp v = Some x \<longrightarrow> found_ok out a v x) \<and>
     (\<forall>u y. (u = a \<and> y = 1) \<or> map_of imp u = Some y \<longrightarrow> (u, y) \<in> set fr \<or> propagated out imp u y)"

lemma impact_inv_step:
  assumes inv: "impact_inv out a ((node, w) # fr) imp" and rel: "relax w (out node) imp fr = (imp', fr')"
  shows "impact_inv out a fr' imp'"
proof -
  from relax_spec[OF rel] obtain new where new: "fr' = fr @ new"
    "\<And>v x. (v, x) \<in> set new \<Longrightarrow> \<exists>d. (v, d) \<in> set (out node) \<and> x = w * ed_weight d * DECAY \<and> x \<ge> CUT"
    "\<And>v x. map_of imp' v = Some x \<Longrightarrow> map_of imp v = Some x \<or> (v, x) \<in> set new"
    "\<And>v. dict_get imp v 0 \<le> dict_get imp' v 0"
    "\<And>v d. (v, d) \<in> set (out node) \<Longrightarrow> w * ed_weight d * DECAY \<ge> CUT \<Longrightarrow> w * ed_weight d * DECAY \<le> dict_get imp' v 0"
    by blast
  have node: "(node = a \<and> w = 1) \<or> found_ok out a node w" using inv by (simp add: impact_inv_def)
  have fresh: "found_ok out a v x" if v: "(v, x) \<in> set new" for v x
  proof -
    from new(2)[OF v] obtain d where d: "(v, d) \<in> set (out node)" "x = w * ed_weight d * DECAY" "x \<ge> CUT" by blast
    from node show ?thesis
    proof
      assume "node = a \<and> w = 1"
      then show ?thesis using d walk.hop[of v d out a] by (auto simp: found_ok_def)
    next
      assume "found_ok out a node w"
      then show ?thesis using d walk.step[of out a node w _ v d] by (auto simp: found_ok_def)
    qed
  qed
  have prop_mono: "propagated out imp u y \<Longrightarrow> propagated out imp' u y" for u y
    unfolding propagated_def using new(4) order_trans by blast
  have "(u, y) \<in> set fr' \<or> propagated out imp' u y"
    if "(u = a \<and> y = 1) \<or> map_of imp' u = Some y" for u y
  proof (cases "(u, y) \<in> set new")
    case False
    with that new(3) have "(u = a \<and> y = 1) \<or> map_of imp u = Some y" by blast
    with inv have "(u, y) \<in> set ((node, w) # fr) \<or> propagated out imp u y"
      unfolding impact_inv_def by blast
    moreover have "propagated out imp' node w" using new(5) by (simp add: propagated_def)
    ultimately show ?thesis using prop_mono by (auto simp: new(1))
  qed (simp add: new(1))
  moreover have "(v = a \<and> x = 1) \<or> found_ok out a v x" if "(v, x) \<in> set fr'" for v x
    using that inv fresh by (auto simp: new(1) impact_inv_def)
  moreover have "found_ok out a v x" if "map_of imp' v = Some x" for v x
    using new(3)[OF that] fresh inv by (auto simp: impact_inv_def)
  ultimately show ?thesis by (simp add: impact_inv_def)
qed

lemma impact_loop_returns:
  assumes "weights_ok out" and "impact_inv out a fr imp"
  shows "\<exists>imp'. impact_loop out fr imp = Some imp' \<and> impact_inv out a [] imp'"
  using assms(2)
proof (induction "mset (List.map (\<lambda>p. hops (snd p)) fr)" arbitrary: fr imp
    rule: wf_induct_rule[OF wf_mult[OF wf_less]])
  case (1 fr imp)
  show ?case
  proof (cases fr)
    case Nil
    then show ?thesis using 1(2) impact_loop.simps[of out "[]" imp] by simp
  next
    case (Cons p rest)
    obtain node w where p: "p = (node, w)" by (cases p)
    obtain imp' fr' where rel: "relax w (out node) imp rest = (imp', fr')" by (cases "relax w (out node) imp rest")
    have unfold: "impact_loop out fr imp = impact_loop out fr' imp'"
      using impact_loop.simps[of out "(node, w) # rest" imp] by (simp add: Cons p rel)
    have inv': "impact_inv out a fr' imp'" using impact_inv_step[of out a node w rest imp imp' fr'] rel 1(2) by (simp add: Cons p)
    have "(node = a \<and> w = 1) \<or> found_ok out a node w" using 1(2) by (simp add: Cons p impact_inv_def)
    then have w: "0 \<le> w" using CUT_pos by (auto simp: found_ok_def)
    from relax_spec[OF rel] obtain new where new: "fr' = rest @ new"
      "\<forall>v x. (v, x) \<in> set new \<longrightarrow> (\<exists>d. (v, d) \<in> set (out node) \<and> x = w * ed_weight d * DECAY \<and> x \<ge> CUT)" by blast
    have less: "hops x < hops w" if vx: "(v, x) \<in> set new" for v x
    proof -
      obtain d where d: "(v, d) \<in> set (out node)" "x = w * ed_weight d * DECAY" "x \<ge> CUT"
        using new(2) vx by blast
      then have "0 \<le> ed_weight d" "ed_weight d \<le> 1" using assms(1) by (auto simp: weights_ok_def)
      with d w show ?thesis by (auto intro: hops_less)
    qed
    have "(mset (List.map (\<lambda>p. hops (snd p)) rest) + mset (List.map (\<lambda>p. hops (snd p)) new),
           mset (List.map (\<lambda>p. hops (snd p)) rest) + {#hops w#}) \<in> mult {(x, y). x < y}"
      by (rule one_step_implies_mult) (auto dest: less)
    then have "(mset (List.map (\<lambda>p. hops (snd p)) fr'), mset (List.map (\<lambda>p. hops (snd p)) fr)) \<in> mult {(x, y). x < y}"
      by (simp add: Cons p new(1))
    from 1(1)[OF this inv'] show ?thesis by (simp add: unfold)
  qed
qed

lemma impact_inv_complete:
  assumes inv: "impact_inv out a [] imp" and ok: "weights_ok out"
  shows "walk out a v x t \<Longrightarrow> CUT \<le> x \<Longrightarrow> \<exists>y. map_of imp v = Some y \<and> x \<le> y"
proof (induction rule: walk.induct)
  case (hop v d)
  have "propagated out imp a 1" using inv by (simp add: impact_inv_def)
  with hop have "ed_weight d * DECAY \<le> dict_get imp v 0" by (auto simp: propagated_def)
  then show ?case using hop.prems CUT_pos by (auto simp: dict_get_def split: option.splits)
next
  case (step u x t v d)
  have d: "0 \<le> ed_weight d" "ed_weight d \<le> 1" using ok step.hyps(2) by (auto simp: weights_ok_def)
  have x: "0 \<le> x"
    using step.hyps(1) ok by (induction rule: walk.induct) (auto simp: weights_ok_def DECAY_def)
  have "CUT \<le> x" using hop_shrinks[OF x d] step.prems by linarith
  with step.IH obtain y where y: "map_of imp u = Some y" "x \<le> y" by blast
  then have "propagated out imp u y" using inv by (simp add: impact_inv_def)
  moreover have le: "x * ed_weight d * DECAY \<le> y * ed_weight d * DECAY"
    using y(2) d DECAY_bounds by (intro mult_right_mono) auto
  ultimately have "y * ed_weight d * DECAY \<le> dict_get imp v 0"
    using step.hyps(2) step.prems by (auto simp: propagated_def)
  then show ?case using le step.prems CUT_pos by (auto simp: dict_get_def split: option.splits)
qed

lemma forward_impact_exact:
  assumes "weights_ok (nx_out_edges nx g)"
  shows "\<exists>imp. forward_impact nx g a = Ret imp \<and>
    (\<forall>v y. map_of imp v = Some y \<longleftrightarrow>
      CUT \<le> y \<and> (\<exists>t. walk (nx_out_edges nx g) a v y t) \<and>
      (\<forall>x t. walk (nx_out_edges nx g) a v x t \<longrightarrow> x \<le> y))"
proof -
  let ?out = "nx_out_edges nx g"
  have "impact_inv ?out a [(a, 1)] []" by (simp add: impact_inv_def)
  from impact_loop_returns[OF assms this] obtain imp where
    imp: "impact_loop ?out [(a, 1)] [] = Some imp" "impact_inv ?out a [] imp" by blast
  have "map_of imp v = Some y \<longleftrightarrow>
      CUT \<le> y \<and> (\<exists>t. walk ?out a v y t) \<and> (\<forall>x t. walk ?out a v x t \<longrightarrow> x \<le> y)" for v y
  proof
    assume y: "map_of imp v = Some y"
    then have ok: "found_ok ?out a v y" using imp(2) by (simp add: impact_inv_def)
    have "x \<le> y" if "walk ?out a v x t" for x t
    proof (cases "CUT \<le> x")
      case True
      then show ?thesis using impact_inv_complete[OF imp(2) assms that] y by auto
    next
      case False
      then show ?thesis using ok by (simp add: found_ok_def)
    qed
    with ok show "CUT \<le> y \<and> (\<exists>t. walk ?out a v y t) \<and> (\<forall>x t. walk ?out a v x t \<longrightarrow> x \<le> y)"
      by (auto simp: found_ok_def)
  next
    assume y: "CUT \<le> y \<and> (\<exists>t. walk ?out a v y t) \<and> (\<forall>x t. walk ?out a v x t \<longrightarrow> x \<le> y)"
    then obtain t where "walk ?out a v y t" by blast
    from impact_inv_complete[OF imp(2) assms this] y obtain z where z: "map_of imp v = Some z" "y \<le> z" by blast
    then have "found_ok ?out a v z" using imp(2) by (simp add: impact_inv_def)
    then have "z \<le> y" using y by (auto simp: found_ok_def)
    with z show "map_of imp v = Some y" by simp
  qed
  then show ?thesis using imp(1) by (auto simp: forward_impact_def of_option_def)
qed

section \<open>The blast loop\<close>

lemma blast_scan_Cons:
  "blast_scan w eta ((nxt, data) # os) seen =
     (if nxt \<in> seen \<or> w * ed_weight data * DECAY < CUT then blast_scan w eta os seen
      else (nxt, w * ed_weight data * DECAY, eta + ed_lag data) # blast_scan w eta os (insert nxt seen))"
  by (simp add: Let_def)

declare blast_scan.simps(2) [simp del]

lemma blast_scan_fresh: "fst ` set (blast_scan w eta os seen) \<inter> seen = {}"
proof (induction os arbitrary: seen)
  case (Cons o1 os)
  then show ?case
    using Cons.IH[of seen] Cons.IH[of "insert (fst o1) seen"] by (cases o1) (auto simp: blast_scan_Cons)
qed simp

lemma blast_scan_distinct: "distinct (List.map fst (blast_scan w eta os seen))"
proof (induction os arbitrary: seen)
  case (Cons o1 os)
  then show ?case
    using blast_scan_fresh[of w eta os "insert (fst o1) seen"]
    by (cases o1) (auto simp: blast_scan_Cons)
qed simp

lemma blast_scan_mem:
  "(p, x, t) \<in> set (blast_scan w eta os seen) \<Longrightarrow>
   \<exists>d. (p, d) \<in> set os \<and> x = w * ed_weight d * DECAY \<and> t = eta + ed_lag d \<and> CUT \<le> x"
proof (induction os arbitrary: seen)
  case (Cons o1 os)
  obtain nxt data where o1: "o1 = (nxt, data)" by (cases o1)
  from Cons.prems consider "(p, x, t) = (nxt, w * ed_weight data * DECAY, eta + ed_lag data)" "\<not> w * ed_weight data * DECAY < CUT"
    | seen' where "(p, x, t) \<in> set (blast_scan w eta os seen')"
    unfolding o1 blast_scan_Cons by (auto split: if_splits)
  then show ?case
  proof cases
    case 1
    then show ?thesis by (intro exI[of _ data]) (simp add: o1)
  next
    case 2
    from Cons.IH[OF 2] show ?thesis by auto
  qed
qed simp

lemma blast_scan_all:
  "(p, d) \<in> set os \<Longrightarrow> CUT \<le> w * ed_weight d * DECAY \<Longrightarrow>
   p \<in> seen \<union> fst ` set (blast_scan w eta os seen)"
proof (induction os arbitrary: seen)
  case (Cons o1 os)
  obtain nxt data where o1: "o1 = (nxt, data)" by (cases o1)
  show ?case
  proof (cases "(p, d) = o1")
    case True
    then show ?thesis using Cons.prems(2) by (auto simp: o1 blast_scan_Cons)
  next
    case False
    then show ?thesis using Cons.prems Cons.IH[of seen] Cons.IH[of "insert nxt seen"]
      by (auto simp: o1 blast_scan_Cons split: if_splits)
  qed
qed simp

definition blast_inv :: "outs \<Rightarrow> pod \<Rightarrow> (pod \<times> real \<times> nat) list \<Rightarrow> pod set \<Rightarrow> (pod \<times> real \<times> nat) list \<Rightarrow> bool" where
  "blast_inv out a fr seen acc \<longleftrightarrow>
     set fr \<subseteq> insert (a, 1, 0) (set acc) \<and> seen = insert a (fst ` set acc) \<and>
     distinct (List.map fst acc) \<and> a \<notin> fst ` set acc \<and>
     (\<forall>p x t. (p, x, t) \<in> set acc \<longrightarrow> CUT \<le> x \<and> walk out a p x t) \<and>
     (\<forall>u x t v d. (u, x, t) \<in> insert (a, 1, 0) (set acc) - set fr \<longrightarrow> (v, d) \<in> set (out u) \<longrightarrow>
        CUT \<le> x * ed_weight d * DECAY \<longrightarrow> v \<in> seen)"

lemma blast_inv_step:
  assumes inv: "blast_inv out a ((node, w, eta) # fr) seen acc"
  defines "new \<equiv> blast_scan w eta (out node) seen"
  shows "blast_inv out a (fr @ new) (seen \<union> fst ` set new) (acc @ new)"
proof -
  note scan = blast_scan_fresh[of w eta "out node" seen, folded new_def]
    blast_scan_distinct[of w eta "out node" seen, folded new_def]
  have node: "(node, w, eta) = (a, 1, 0) \<or> walk out a node w eta"
    using inv by (auto simp: blast_inv_def)
  have fresh: "CUT \<le> x \<and> walk out a p x t" if new: "(p, x, t) \<in> set new" for p x t
  proof -
    from blast_scan_mem[OF new[unfolded new_def]] obtain d where d: "(p, d) \<in> set (out node)" "x = w * ed_weight d * DECAY" "t = eta + ed_lag d" "CUT \<le> x"
      by blast
    from node show ?thesis
      using d walk.hop[of p d out a] walk.step[of out a node w eta p d] by auto
  qed
  have closed: "v \<in> seen \<union> fst ` set new"
    if "(u, x, t) \<in> insert (a, 1, 0) (set (acc @ new)) - set (fr @ new)" "(v, d) \<in> set (out u)"
      "CUT \<le> x * ed_weight d * DECAY" for u x t v d
  proof (cases "(u, x, t) = (node, w, eta)")
    case True
    then show ?thesis using that blast_scan_all[of v d "out node" w seen eta] by (simp add: new_def)
  next
    case False
    with that(1) have "(u, x, t) \<in> insert (a, 1, 0) (set acc) - set ((node, w, eta) # fr)" by auto
    then show ?thesis using inv that(2,3) unfolding blast_inv_def by blast
  qed
  show ?thesis
    unfolding blast_inv_def
  proof (intro conjI)
    show "set (fr @ new) \<subseteq> insert (a, 1, 0) (set (acc @ new))" "seen \<union> fst ` set new = insert a (fst ` set (acc @ new))"
      using inv by (auto simp: blast_inv_def)
    show "distinct (List.map fst (acc @ new))" "a \<notin> fst ` set (acc @ new)"
      using inv scan by (auto simp: blast_inv_def)
    show "\<forall>p x t. (p, x, t) \<in> set (acc @ new) \<longrightarrow> CUT \<le> x \<and> walk out a p x t"
      using inv fresh by (auto simp: blast_inv_def)
  qed (use closed in blast)
qed

lemma blast_loop_returns:
  assumes fin: "finite T" "\<And>u. fst ` set (out u) \<subseteq> T" and "blast_inv out a fr seen acc"
  shows "\<exists>acc' seen'. blast_loop out fr seen acc = Some acc' \<and> blast_inv out a [] seen' acc'"
  using assms(3)
proof (induction "2 * card (T - seen) + length fr" arbitrary: fr seen acc rule: less_induct)
  case less
  show ?case
  proof (cases fr)
    case Nil
    then show ?thesis using less.prems blast_loop.simps[of out "[]" seen acc] by auto
  next
    case (Cons p rest)
    obtain node w eta where p: "p = (node, w, eta)" by (cases p)
    define new where "new = blast_scan w eta (out node) seen"
    note scan = blast_scan_fresh[of w eta "out node" seen, folded new_def]
      blast_scan_distinct[of w eta "out node" seen, folded new_def]
    have inv: "blast_inv out a (rest @ new) (seen \<union> fst ` set new) (acc @ new)"
      using blast_inv_step[of out a node w eta rest seen acc] less.prems by (simp add: Cons p new_def)
    have sub: "fst ` set new \<subseteq> T - seen"
    proof
      fix v assume "v \<in> fst ` set new"
      then obtain x t where new: "(v, x, t) \<in> set new" by force
      from blast_scan_mem[OF this[unfolded new_def]] have "v \<in> T" using fin(2)[of node] by force
      moreover have "v \<notin> seen" using scan(1) new by force
      ultimately show "v \<in> T - seen" by simp
    qed
    have len: "card (fst ` set new) = length new"
      using scan(2) distinct_card[of "List.map fst new"] by simp
    have "T - (seen \<union> fst ` set new) = (T - seen) - fst ` set new" by auto
    moreover have "card ((T - seen) - fst ` set new) = card (T - seen) - length new"
      using card_Diff_subset[OF _ sub] len by simp
    moreover have "length new \<le> card (T - seen)"
      using card_mono[OF _ sub] fin(1) len by simp
    ultimately have "2 * card (T - (seen \<union> fst ` set new)) + length (rest @ new) < 2 * card (T - seen) + length fr"
      by (simp add: Cons)
    from less.hyps[OF this inv] show ?thesis
      using blast_loop.simps[of out "(node, w, eta) # rest" seen acc] by (simp add: Cons p new_def Let_def)
  qed
qed

lemma build_graph_targets:
  "digraph_laws nx \<Longrightarrow> fst ` set (nx_out_edges nx (build_graph nx es) u) \<subseteq> e_dst ` set es"
  by (auto dest: build_graph_out)

lemma blast_radius_spec:
  assumes "digraph_laws nx" and "a \<in> set (nx_nodes nx (build_graph nx es))"
  defines "out \<equiv> nx_out_edges nx (build_graph nx es)"
  shows "\<exists>acc. blast_radius nx (build_graph nx es) a =
       Ret (sort_key (\<lambda>d. - v_impact d)
         (List.map (\<lambda>(p, x, t). \<lparr>v_pod = p, v_impact = py_round 3 x, v_eta = t\<rparr>) acc)) \<and>
     distinct (List.map fst acc) \<and> a \<notin> fst ` set acc \<and>
     (\<forall>(p, x, t) \<in> set acc. CUT \<le> x \<and> walk out a p x t) \<and>
     (\<forall>(u, x, t) \<in> insert (a, 1, 0) (set acc). \<forall>(v, d) \<in> set (out u).
        CUT \<le> x * ed_weight d * DECAY \<longrightarrow> v \<in> insert a (fst ` set acc))"
proof -
  have inv: "blast_inv out a [(a, 1, 0)] {a} []" by (auto simp: blast_inv_def)
  have "\<exists>acc' seen'. blast_loop out [(a, 1, 0)] {a} [] = Some acc' \<and> blast_inv out a [] seen' acc'"
    by (rule blast_loop_returns[OF _ _ inv, of "e_dst ` set es"])
      (unfold out_def, simp, rule build_graph_targets[OF assms(1)])
  then obtain acc seen where acc: "blast_loop out [(a, 1, 0)] {a} [] = Some acc" "blast_inv out a [] seen acc" by blast
  then have "blast_radius nx (build_graph nx es) a =
       Ret (sort_key (\<lambda>d. - v_impact d)
         (List.map (\<lambda>(p, x, t). \<lparr>v_pod = p, v_impact = py_round 3 x, v_eta = t\<rparr>) acc))"
    using assms(2) by (simp add: blast_radius_def out_def of_option_def)
  moreover have "\<forall>(p, x, t) \<in> set acc. CUT \<le> x \<and> walk out a p x t"
    using acc(2) by (auto simp: blast_inv_def)
  moreover have "\<forall>(u, x, t) \<in> insert (a, 1, 0) (set acc). \<forall>(v, d) \<in> set (out u).
        CUT \<le> x * ed_weight d * DECAY \<longrightarrow> v \<in> insert a (fst ` set acc)"
    using acc(2) unfolding blast_inv_def by (simp only: list.set Diff_empty) blast
  moreover have "distinct (List.map fst acc)" "a \<notin> fst ` set acc"
    using acc(2) by (simp_all add: blast_inv_def)
  ultimately show ?thesis by (intro exI[of _ acc] conjI)
qed

definition victims_of :: "(pod \<times> real \<times> nat) list \<Rightarrow> victim list" where
  "victims_of acc = sort_key (\<lambda>d. - v_impact d)
     (List.map (\<lambda>(p, x, t). \<lparr>v_pod = p, v_impact = py_round 3 x, v_eta = t\<rparr>) acc)"

lemma victims_of_set: "v_pod ` set (victims_of acc) = fst ` set acc"
  by (force simp: victims_of_def)

lemma victims_of_pods: "distinct (List.map v_pod (victims_of acc)) \<longleftrightarrow> distinct (List.map fst acc)"
proof -
  have "mset (List.map v_pod (victims_of acc)) = mset (List.map fst acc)"
    by (simp add: victims_of_def image_mset.compositionality comp_def case_prod_beta)
  then show ?thesis by (rule mset_eq_imp_distinct_iff)
qed

lemma victims_of_sorted: "sorted_wrt (\<lambda>x y. v_impact y \<le> v_impact x) (victims_of acc)"
  using sort_key_sorted_wrt[of "\<lambda>d. - v_impact d"] by (simp add: victims_of_def)

section \<open>The ranking\<close>

lemma root_scores_returns:
  assumes "weights_ok (nx_out_edges nx g)"
  shows "\<exists>imp. (\<forall>n. forward_impact nx g n = Ret (imp n)) \<and>
    root_scores nx g seeds = Ret (filter (\<lambda>(n, sc). sc > 0)
      (List.map (\<lambda>n. (n, explain_score nx g (seed_set_of nx g seeds) n (imp n))) (nx_nodes nx g)))"
proof -
  have "\<forall>n. \<exists>i. forward_impact nx g n = Ret i" using forward_impact_exact[OF assms] by blast
  then obtain imp where imp: "\<And>n. forward_impact nx g n = Ret (imp n)" by metis
  then show ?thesis by (intro exI[of _ imp]) (simp add: root_scores_def omap_Ret_map)
qed

definition ranked_of :: "onsets \<Rightarrow> (pod \<times> real) list \<Rightarrow> (pod \<times> real) list" where
  "ranked_of onset_s scores = sort_key (\<lambda>kv. (- snd kv, onset_key onset_s (fst kv))) scores"

lemma rank_root_causes_scores:
  assumes "root_scores nx g seeds = Ret scores" "nx_number_of_edges nx g \<noteq> 0"
  shows "rank_root_causes nx g seeds onset_s top_n =
    Ret (List.map (\<lambda>(p, sc). \<lparr>rc_pod = p, rc_score = py_round 3 (sc / sum_list (List.map snd scores)), rc_onset = map_of onset_s p\<rparr>)
       (take top_n (ranked_of onset_s scores)))"
  using assms by (auto simp: rank_root_causes_def ranked_of_def Let_def)

lemma ranked_of_mem [simp]: "set (ranked_of onset_s scores) = set scores"
  by (simp add: ranked_of_def)

lemma ranked_of_sorted: "sorted_wrt (\<lambda>x y. snd y \<le> snd x) (ranked_of onset_s scores)"
proof (rule sorted_wrt_mono_rel[OF _ sort_key_sorted_wrt[of "\<lambda>kv. (- snd kv, onset_key onset_s (fst kv))" scores, folded ranked_of_def]])
qed (auto simp: less_eq_prod_def)

lemma ranked_of_distinct: "distinct (keys scores) \<Longrightarrow> distinct (keys (ranked_of onset_s scores))"
proof -
  assume "distinct (keys scores)"
  moreover have "mset (keys (ranked_of onset_s scores)) = mset (keys scores)"
    by (simp add: ranked_of_def)
  ultimately show ?thesis by (metis mset_eq_imp_distinct_iff)
qed

lemma score_share:
  assumes "(p, sc) \<in> set scores" "\<forall>kv \<in> set scores. snd kv > (0::real)"
  shows "0 \<le> sc / sum_list (List.map snd scores) \<and> sc / sum_list (List.map snd scores) \<le> 1"
proof -
  have "sc \<le> sum_list (List.map snd scores)"
    using member_le_sum_list[of sc "List.map snd scores"] assms by (force intro: less_imp_le)
  moreover have "0 < sc" using assms by auto
  ultimately show ?thesis by (simp add: divide_le_eq_1)
qed

lemma rank_root_causes_spec:
  assumes sc: "root_scores nx g seeds = Ret scores" and ne: "nx_number_of_edges nx g \<noteq> 0"
    and pos: "\<forall>kv \<in> set scores. snd kv > 0" and dist: "distinct (keys scores)"
  shows "\<exists>rs. rank_root_causes nx g seeds onset_s top_n = Ret rs \<and> length rs \<le> top_n \<and>
    distinct (List.map rc_pod rs) \<and> sorted_wrt (\<lambda>x y. rc_score y \<le> rc_score x) rs \<and>
    (\<forall>r \<in> set rs. rc_pod r \<in> fst ` set scores \<and> 0 \<le> rc_score r \<and> rc_score r \<le> 1 \<and>
       rc_onset r = map_of onset_s (rc_pod r))"
proof -
  let ?t = "sum_list (List.map snd scores)"
  let ?f = "\<lambda>(p, sc). \<lparr>rc_pod = p, rc_score = py_round 3 (sc / ?t), rc_onset = map_of onset_s p\<rparr>"
  let ?k = "take top_n (ranked_of onset_s scores)"
  have t: "0 \<le> ?t" by (rule sum_list_nonneg) (use pos in \<open>auto intro: less_imp_le\<close>)
  have sub: "set ?k \<subseteq> set scores" using set_take_subset[of top_n "ranked_of onset_s scores"] by simp
  have "distinct (List.map rc_pod (List.map ?f ?k))"
    using distinct_take[OF ranked_of_distinct[OF dist], of top_n onset_s]
    by (simp add: comp_def case_prod_beta take_map)
  moreover have "sorted_wrt (\<lambda>x y. rc_score y \<le> rc_score x) (List.map ?f ?k)"
    unfolding sorted_wrt_map
    by (rule sorted_wrt_mono_rel[OF _ sorted_wrt_take[OF ranked_of_sorted]])
      (auto simp: case_prod_beta t intro!: py_round_mono divide_right_mono)
  moreover have "rc_pod r \<in> fst ` set scores \<and> 0 \<le> rc_score r \<and> rc_score r \<le> 1 \<and> rc_onset r = map_of onset_s (rc_pod r)"
    if "r \<in> set (List.map ?f ?k)" for r
  proof -
    from that sub obtain p s where p: "(p, s) \<in> set scores" "r = ?f (p, s)" by auto
    with score_share[OF p(1) pos] show ?thesis
      by (auto simp: py_round_nonneg py_round_le_1 intro: rev_image_eqI)
  qed
  ultimately show ?thesis using rank_root_causes_scores[OF sc ne, of onset_s top_n] by auto
qed

lemma root_scores_facts:
  assumes "digraph_laws nx" "\<forall>e \<in> set es. \<bar>e_r e\<bar> \<le> 1"
  shows "\<exists>imp scores. (\<forall>n. forward_impact nx (build_graph nx es) n = Ret (imp n)) \<and>
    root_scores nx (build_graph nx es) seeds = Ret scores \<and> distinct (keys scores) \<and>
    (\<forall>n sc. (n, sc) \<in> set scores \<longleftrightarrow> n \<in> set (nx_nodes nx (build_graph nx es)) \<and> sc > 0 \<and>
       sc = explain_score nx (build_graph nx es) (seed_set_of nx (build_graph nx es) seeds) n (imp n))"
proof -
  let ?g = "build_graph nx es"
  let ?sc = "\<lambda>imp n. explain_score nx ?g (seed_set_of nx ?g seeds) n (imp n)"
  from root_scores_returns[OF build_graph_weights_ok[OF assms], of seeds] obtain imp where
    imp: "\<And>n. forward_impact nx ?g n = Ret (imp n)"
    "root_scores nx ?g seeds = Ret (filter (\<lambda>(n, sc). sc > 0) (List.map (\<lambda>n. (n, ?sc imp n)) (nx_nodes nx ?g)))"
    by blast
  have "distinct (nx_nodes nx ?g)" using build_graph_nodes[OF assms(1)] by blast
  then have "distinct (keys (filter (\<lambda>(n, sc). sc > 0) (List.map (\<lambda>n. (n, ?sc imp n)) (nx_nodes nx ?g))))"
    by (intro distinct_map_filter) (simp add: comp_def)
  with imp show ?thesis
    by (intro exI[of _ imp]
        exI[of _ "filter (\<lambda>(n, sc). sc > 0) (List.map (\<lambda>n. (n, ?sc imp n)) (nx_nodes nx ?g))"]) auto
qed

lemma ranked_head:
  assumes "ranked_of onset_s scores = kv # rest" "(n, sc) \<in> set scores"
  shows "sc \<le> snd kv \<and> (sc = snd kv \<longrightarrow> onset_key onset_s (fst kv) \<le> onset_key onset_s n)"
proof (cases "(n, sc) = kv")
  case False
  have "(n, sc) \<in> set (kv # rest)" using assms ranked_of_mem[of onset_s scores] by simp
  with False have "(- snd kv, onset_key onset_s (fst kv)) \<le> (- sc, onset_key onset_s n)"
    using sort_key_sorted_wrt[of "\<lambda>kv. (- snd kv, onset_key onset_s (fst kv))" scores, folded ranked_of_def]
      assms(1) by auto
  then show ?thesis by (auto simp: less_eq_prod_def)
qed auto

lemma rank_root_causes_returns:
  assumes "digraph_laws nx" "\<forall>e \<in> set es. \<bar>e_r e\<bar> \<le> 1"
  shows "\<exists>rs. rank_root_causes nx (build_graph nx es) seeds onset_s top_n = Ret rs"
proof -
  obtain scores where "root_scores nx (build_graph nx es) seeds = Ret scores"
    using root_scores_facts[OF assms] by blast
  then show ?thesis by (simp add: rank_root_causes_def Let_def)
qed

lemma blast_radius_returns: "digraph_laws nx \<Longrightarrow> \<exists>ds. blast_radius nx (build_graph nx es) rt = Ret ds"
  using blast_radius_spec[of nx rt es] by (cases "rt \<in> set (nx_nodes nx (build_graph nx es))") (auto simp: blast_radius_def)

section \<open>Two small graphs\<close>

definition chain3 :: "edge list" where
  "chain3 = [\<lparr>e_src = ''a'', e_dst = ''b'', e_r = 9 / 10, e_lag = 10, e_evidence = [Temporal]\<rparr>,
             \<lparr>e_src = ''b'', e_dst = ''c'', e_r = 4 / 5, e_lag = 20, e_evidence = [Temporal]\<rparr>]"

lemma chain3_weights: "\<forall>e \<in> set chain3. \<bar>e_r e\<bar> \<le> 1"
  by (simp add: chain3_def)

lemma chain3_nodes: "nx_nodes log_nx (build_graph log_nx chain3) = [''a'', ''b'', ''c'']"
  by code_simp

lemma chain3_impact:
  "forward_impact log_nx (build_graph log_nx chain3) ''a'' = Ret [(''b'', 63 / 100), (''c'', 3528 / 10000)]"
  "forward_impact log_nx (build_graph log_nx chain3) ''b'' = Ret [(''c'', 56 / 100)]"
  by code_simp+

lemma chain3_rank:
  "rank_root_causes log_nx (build_graph log_nx chain3) [''b''] [(''a'', 10)] 1 =
     Ret [\<lparr>rc_pod = ''a'', rc_score = 1, rc_onset = Some 10\<rparr>]"
  by code_simp

lemma chain3_blast:
  "blast_radius log_nx (build_graph log_nx chain3) ''a'' =
     Ret [\<lparr>v_pod = ''b'', v_impact = 63 / 100, v_eta = 10\<rparr>, \<lparr>v_pod = ''c'', v_impact = 353 / 1000, v_eta = 30\<rparr>]"
  by code_simp

definition weak_direct :: "edge list" where
  "weak_direct =
     [\<lparr>e_src = ''a'', e_dst = ''b'', e_r = 1 / 4, e_lag = 10, e_evidence = [Temporal]\<rparr>,
      \<lparr>e_src = ''a'', e_dst = ''c'', e_r = 1, e_lag = 10, e_evidence = [Temporal]\<rparr>,
      \<lparr>e_src = ''c'', e_dst = ''b'', e_r = 1, e_lag = 10, e_evidence = [Temporal]\<rparr>,
      \<lparr>e_src = ''b'', e_dst = ''d'', e_r = 1, e_lag = 20, e_evidence = [Temporal]\<rparr>]"

lemma weak_direct_runs:
  "blast_radius log_nx (build_graph log_nx weak_direct) ''a'' =
     Ret [\<lparr>v_pod = ''c'', v_impact = 7 / 10, v_eta = 10\<rparr>, \<lparr>v_pod = ''b'', v_impact = 175 / 1000, v_eta = 10\<rparr>]"
  "forward_impact log_nx (build_graph log_nx weak_direct) ''a'' =
     Ret [(''b'', 49 / 100), (''c'', 7 / 10), (''d'', 343 / 1000)]"
  by code_simp+

section \<open>Properties\<close>

text \<open>C8. Forward impact is exact: on a graph built from edges whose correlations are correlations, the
  worklist runs dry, and a pod has impact \<open>y\<close> exactly when \<open>y\<close> is the largest decayed weight of any
  walk to it and reaches the cut. No explanation is missed and none is invented, cycles included.\<close>

theorem forward_impact_best_walk:
  assumes "digraph_laws nx" "\<forall>e \<in> set es. \<bar>e_r e\<bar> \<le> 1"
  defines "out \<equiv> nx_out_edges nx (build_graph nx es)"
  shows "\<exists>imp. forward_impact nx (build_graph nx es) rt = Ret imp \<and>
    (\<forall>v y. map_of imp v = Some y \<longleftrightarrow>
      CUT \<le> y \<and> (\<exists>t. walk out rt v y t) \<and> (\<forall>x t. walk out rt v x t \<longrightarrow> x \<le> y))"
  unfolding out_def by (rule forward_impact_exact[OF build_graph_weights_ok[OF assms(1,2)]])

theorem forward_impact_best_walk_witness:
  "\<exists>imp. forward_impact log_nx (build_graph log_nx chain3) ''a'' = Ret imp \<and>
    (\<forall>v y. map_of imp v = Some y \<longleftrightarrow>
      CUT \<le> y \<and> (\<exists>t. walk (nx_out_edges log_nx (build_graph log_nx chain3)) ''a'' v y t) \<and>
      (\<forall>x t. walk (nx_out_edges log_nx (build_graph log_nx chain3)) ''a'' v x t \<longrightarrow> x \<le> y))"
  by (rule forward_impact_best_walk[OF log_nx_laws chain3_weights])

text \<open>The ranking is total and well formed: at most \<open>top\<close> distinct pods of the graph, each
  carrying a share of the explained symptoms between 0 and 1, the shares descending, and the onset
  looked up for the pod.\<close>

theorem ranking_well_formed:
  assumes "digraph_laws nx" "\<forall>e \<in> set es. \<bar>e_r e\<bar> \<le> 1"
  shows "\<exists>rs. rank_root_causes nx (build_graph nx es) seeds onset_s top_n = Ret rs \<and>
    length rs \<le> top_n \<and> distinct (List.map rc_pod rs) \<and>
    sorted_wrt (\<lambda>x y. rc_score y \<le> rc_score x) rs \<and>
    (\<forall>r \<in> set rs. rc_pod r \<in> e_src ` set es \<union> e_dst ` set es \<and> 0 \<le> rc_score r \<and> rc_score r \<le> 1 \<and>
       rc_onset r = map_of onset_s (rc_pod r))"
proof (cases "es = []")
  case True
  then show ?thesis using build_graph_no_edges[OF assms(1), of es] by (simp add: rank_root_causes_def)
next
  case False
  from root_scores_facts[OF assms, of seeds] obtain imp scores where
    sc: "root_scores nx (build_graph nx es) seeds = Ret scores" "distinct (keys scores)"
    "\<And>n s. (n, s) \<in> set scores \<longleftrightarrow> n \<in> set (nx_nodes nx (build_graph nx es)) \<and> s > 0 \<and>
       s = explain_score nx (build_graph nx es) (seed_set_of nx (build_graph nx es) seeds) n (imp n)" by metis
  have nodes: "fst ` set scores \<subseteq> e_src ` set es \<union> e_dst ` set es"
    using sc(3) build_graph_nodes[OF assms(1), of es] by auto
  have pos: "\<forall>kv \<in> set scores. snd kv > 0" using sc(3) by auto
  have ne: "nx_number_of_edges nx (build_graph nx es) \<noteq> 0"
    using False build_graph_no_edges[OF assms(1), of es] by simp
  obtain rs where "rank_root_causes nx (build_graph nx es) seeds onset_s top_n = Ret rs" "length rs \<le> top_n"
    "distinct (List.map rc_pod rs)" "sorted_wrt (\<lambda>x y. rc_score y \<le> rc_score x) rs"
    "\<And>r. r \<in> set rs \<Longrightarrow> rc_pod r \<in> fst ` set scores \<and> 0 \<le> rc_score r \<and> rc_score r \<le> 1 \<and>
       rc_onset r = map_of onset_s (rc_pod r)"
    using rank_root_causes_spec[OF sc(1) ne pos sc(2), of onset_s top_n] by blast
  with nodes show ?thesis by (intro exI[of _ rs]) (simp add: subset_iff)
qed

theorem ranking_well_formed_witness:
  "\<exists>rs. rank_root_causes log_nx (build_graph log_nx chain3) [''b''] [(''a'', 10)] 1 = Ret rs \<and> length rs \<le> 1"
  using ranking_well_formed[OF log_nx_laws chain3_weights, of "[''b'']" "[(''a'', 10)]" 1] by blast

text \<open>C15. The first root cause really is the best explanation: no pod of the graph explains more of
  the symptom set, and among the pods that explain as much none started earlier.\<close>

theorem top_root_cause_explains_most:
  assumes "digraph_laws nx" "\<forall>e \<in> set es. \<bar>e_r e\<bar> \<le> 1"
    and "rank_root_causes nx (build_graph nx es) seeds onset_s top_n = Ret (r # rs)"
    and "n \<in> set (nx_nodes nx (build_graph nx es))"
    and "forward_impact nx (build_graph nx es) n = Ret i"
    and "forward_impact nx (build_graph nx es) (rc_pod r) = Ret j"
  defines "sc \<equiv> \<lambda>p. explain_score nx (build_graph nx es) (seed_set_of nx (build_graph nx es) seeds) p"
  shows "sc n i \<le> sc (rc_pod r) j \<and> 0 < sc (rc_pod r) j \<and>
    (sc n i = sc (rc_pod r) j \<longrightarrow> onset_key onset_s (rc_pod r) \<le> onset_key onset_s n)"
proof -
  let ?g = "build_graph nx es"
  from root_scores_facts[OF assms(1,2), of seeds] obtain imp scores where
    sc: "\<And>n. forward_impact nx ?g n = Ret (imp n)" "root_scores nx ?g seeds = Ret scores"
    "\<And>n s. (n, s) \<in> set scores \<longleftrightarrow> n \<in> set (nx_nodes nx ?g) \<and> s > 0 \<and>
       s = explain_score nx ?g (seed_set_of nx ?g seeds) n (imp n)" by metis
  have "nx_number_of_edges nx ?g \<noteq> 0"
  proof
    assume "nx_number_of_edges nx ?g = 0"
    with assms(3) show False by (simp add: rank_root_causes_def)
  qed
  with assms(3) rank_root_causes_scores[OF sc(2), of onset_s top_n]
  obtain kv rest where kv: "ranked_of onset_s scores = kv # rest" "rc_pod r = fst kv"
    by (cases "ranked_of onset_s scores"; cases top_n) auto
  have "(fst kv, snd kv) \<in> set scores" using ranked_of_mem[of onset_s scores] kv(1) by auto
  then have top: "snd kv > 0" "snd kv = sc (rc_pod r) j"
    using sc(3)[of "fst kv" "snd kv"] sc(1) assms(6) kv(2) by (auto simp: sc_def)
  have n: "sc n i = explain_score nx ?g (seed_set_of nx ?g seeds) n (imp n)"
    using sc(1)[of n] assms(5) by (simp add: sc_def)
  show ?thesis
  proof (cases "sc n i > 0")
    case True
    then have "(n, sc n i) \<in> set scores" using sc(3) assms(4) n by simp
    from ranked_head[OF kv(1) this] show ?thesis using top kv(2) by simp
  next
    case False
    then show ?thesis using top by simp
  qed
qed

theorem top_root_cause_explains_most_witness:
  "explain_score log_nx (build_graph log_nx chain3) (seed_set_of log_nx (build_graph log_nx chain3) [''b'']) ''b'' [(''c'', 56 / 100)]
   \<le> explain_score log_nx (build_graph log_nx chain3) (seed_set_of log_nx (build_graph log_nx chain3) [''b'']) ''a''
       [(''b'', 63 / 100), (''c'', 3528 / 10000)]"
  using top_root_cause_explains_most[OF log_nx_laws chain3_weights chain3_rank, of "''b''"]
    chain3_nodes chain3_impact by simp

text \<open>C22. Every predicted victim is real: the blast radius returns without any assumption on the
  weights, names each pod once and never the root, in order of impact, and every entry is the end of
  a walk of causal edges whose lags add up to its ETA and whose decayed weight, rounded to three
  digits and not below the cut, is its impact. A root outside the graph has no victims.\<close>

theorem blast_radius_walks:
  assumes "digraph_laws nx"
  shows "\<exists>ds. blast_radius nx (build_graph nx es) rt = Ret ds \<and>
    distinct (List.map v_pod ds) \<and> rt \<notin> v_pod ` set ds \<and>
    sorted_wrt (\<lambda>x y. v_impact y \<le> v_impact x) ds \<and>
    (\<forall>d \<in> set ds. \<exists>x. walk (nx_out_edges nx (build_graph nx es)) rt (v_pod d) x (v_eta d) \<and> CUT \<le> x \<and> v_impact d = py_round 3 x)"
proof (cases "rt \<in> set (nx_nodes nx (build_graph nx es))")
  case True
  from blast_radius_spec[OF assms(1) True] obtain acc where
    acc: "blast_radius nx (build_graph nx es) rt = Ret (victims_of acc)"
    "distinct (List.map fst acc)" "rt \<notin> fst ` set acc"
    "\<And>p x t. (p, x, t) \<in> set acc \<Longrightarrow> CUT \<le> x \<and> walk (nx_out_edges nx (build_graph nx es)) rt p x t"
    unfolding victims_of_def by blast
  have "distinct (List.map v_pod (victims_of acc))" using acc(2) by (simp add: victims_of_pods)
  moreover have "rt \<notin> v_pod ` set (victims_of acc)" using acc(3) by (simp add: victims_of_set)
  moreover have "\<exists>x. walk (nx_out_edges nx (build_graph nx es)) rt (v_pod d) x (v_eta d) \<and> CUT \<le> x \<and> v_impact d = py_round 3 x"
    if "d \<in> set (victims_of acc)" for d
  proof -
    from that obtain p x t where d: "(p, x, t) \<in> set acc" "d = \<lparr>v_pod = p, v_impact = py_round 3 x, v_eta = t\<rparr>"
      by (auto simp: victims_of_def)
    from acc(4)[OF d(1)] show ?thesis by (intro exI[of _ x]) (simp add: d(2))
  qed
  ultimately show ?thesis using acc(1) victims_of_sorted[of acc] by simp
qed (simp add: blast_radius_def)

theorem blast_radius_walks_witness:
  "\<exists>ds. blast_radius log_nx (build_graph log_nx chain3) ''a'' = Ret ds \<and> ''a'' \<notin> v_pod ` set ds"
  using blast_radius_walks[OF log_nx_laws, of chain3 "''a''"] by blast

text \<open>The blast radius agrees with the ranking's forward impact: every predicted victim is a pod
  the root explains, with an impact no larger than its best explanation, and every pod one edge away
  whose decayed weight reaches the cut is predicted.\<close>

theorem blast_radius_within_impact:
  assumes "digraph_laws nx" "\<forall>e \<in> set es. \<bar>e_r e\<bar> \<le> 1"
    and "blast_radius nx (build_graph nx es) rt = Ret ds"
    and "forward_impact nx (build_graph nx es) rt = Ret imp"
    and "rt \<in> set (nx_nodes nx (build_graph nx es))"
  shows "(\<forall>d \<in> set ds. \<exists>y. map_of imp (v_pod d) = Some y \<and> v_impact d \<le> py_round 3 y) \<and>
    (\<forall>(v, d) \<in> set (nx_out_edges nx (build_graph nx es) rt).
       CUT \<le> ed_weight d * DECAY \<longrightarrow> v = rt \<or> v \<in> v_pod ` set ds)"
proof -
  let ?g = "build_graph nx es"
  from blast_radius_spec[OF assms(1,5)] obtain acc where
    acc: "blast_radius nx ?g rt = Ret (victims_of acc)"
    "\<And>p x t. (p, x, t) \<in> set acc \<Longrightarrow> CUT \<le> x \<and> walk (nx_out_edges nx ?g) rt p x t"
    "\<forall>(u, x, t) \<in> insert (rt, 1, 0) (set acc). \<forall>(v, d) \<in> set (nx_out_edges nx ?g u).
        CUT \<le> x * ed_weight d * DECAY \<longrightarrow> v \<in> insert rt (fst ` set acc)"
    unfolding victims_of_def by blast
  have ds: "ds = victims_of acc" using acc(1) assms(3) by simp
  from assms(4) have ret: "impact_loop (nx_out_edges nx ?g) [(rt, 1)] [] = Some imp"
    by (simp add: forward_impact_def outcome_simps)
  have inv0: "impact_inv (nx_out_edges nx ?g) rt [(rt, 1)] []" by (simp add: impact_inv_def)
  have inv: "impact_inv (nx_out_edges nx ?g) rt [] imp"
    using impact_loop_returns[OF build_graph_weights_ok[OF assms(1,2)] inv0] ret by auto
  have "\<exists>y. map_of imp (v_pod d) = Some y \<and> v_impact d \<le> py_round 3 y" if "d \<in> set ds" for d
  proof -
    from that obtain p x t where d: "(p, x, t) \<in> set acc" "v_pod d = p" "v_impact d = py_round 3 x"
      by (auto simp: ds victims_of_def)
    from impact_inv_complete[OF inv build_graph_weights_ok[OF assms(1,2)], of p x t] acc(2)[OF d(1)]
    obtain y where "map_of imp p = Some y" "x \<le> y" by blast
    then show ?thesis using d py_round_mono by auto
  qed
  moreover have "v = rt \<or> v \<in> v_pod ` set ds"
    if "(v, d) \<in> set (nx_out_edges nx ?g rt)" "CUT \<le> ed_weight d * DECAY" for v d
    using acc(3) that by (auto simp: ds victims_of_set)
  ultimately show ?thesis by auto
qed

theorem blast_radius_within_impact_witness:
  "\<exists>y. map_of [(''b'', 63 / 100), (''c'', 3528 / 10000)] ''c'' = Some y \<and> (353 / 1000 :: real) \<le> py_round 3 y"
  using blast_radius_within_impact[OF log_nx_laws chain3_weights chain3_blast chain3_impact(1)] chain3_nodes
  by simp


end
