(* ===== verification/Keep_Best.thy ===== *)
theory Keep_Best
  imports Py_Base "HOL-Library.Multiset"
begin

text \<open>
  A loop the engine writes twice: walk over candidates and keep, for every key, the first candidate
  that no other one is strictly preferred to. The pass deduplicates its edges this way and the memory
  picks the held edge of a pair.
\<close>

definition keep_best :: "('a \<Rightarrow> 'k) \<Rightarrow> ('a \<Rightarrow> 'p::linorder) \<Rightarrow> 'a \<Rightarrow> ('k, 'a) dict \<Rightarrow> ('k, 'a) dict" where
  "keep_best key pref x d =
     (case map_of d (key x) of
        None \<Rightarrow> AList.update (key x) x d
      | Some y \<Rightarrow> (if pref x > pref y then AList.update (key x) x d else d))"

definition kept :: "('a \<Rightarrow> 'k) \<Rightarrow> ('a \<Rightarrow> 'p::linorder) \<Rightarrow> 'a list \<Rightarrow> ('k, 'a) dict \<Rightarrow> bool" where
  "kept key pref xs d \<longleftrightarrow> distinct (keys d) \<and> snd ` set d \<subseteq> set xs \<and> (\<forall>(k, x) \<in> set d. k = key x) \<and>
     (\<forall>x \<in> set xs. \<exists>y. map_of d (key x) = Some y \<and> pref x \<le> pref y)"

lemma set_update: "set (AList.update k v d) \<subseteq> insert (k, v) (set d)"
  by (induction d) auto

lemma kept_step:
  assumes "kept key pref xs d"
  shows "kept key pref (xs @ [x]) (keep_best key pref x d)"
proof (cases "\<exists>y. map_of d (key x) = Some y \<and> pref x \<le> pref y")
  case True
  then have "keep_best key pref x d = d" by (auto simp: keep_best_def not_less)
  with assms True show ?thesis by (auto simp: kept_def)
next
  case False
  then have step: "keep_best key pref x d = AList.update (key x) x d"
    by (auto simp: keep_best_def not_le split: option.split)
  have A: "\<exists>y. map_of (AList.update (key x) x d) (key z) = Some y \<and> pref z \<le> pref y" if "z \<in> set (xs @ [x])" for z
  proof (cases "z \<in> set xs")
    case True
    then obtain y where y: "map_of d (key z) = Some y" "pref z \<le> pref y" using assms by (auto simp: kept_def)
    have "pref z \<le> pref x" if "key z = key x"
      using y False that by (metis linear order_trans)
    with y show ?thesis by auto
  qed (use that in auto)
  have mem: "c = (key x, x) \<or> c \<in> set d" if "c \<in> set (AList.update (key x) x d)" for c
    using set_update[of "key x" x d] that by blast
  have B: "snd c \<in> set (xs @ [x])" if "c \<in> set (AList.update (key x) x d)" for c
    using mem[OF that] assms by (auto simp: kept_def)
  have C: "case c of (k, y) \<Rightarrow> k = key y" if "c \<in> set (AList.update (key x) x d)" for c
    using mem[OF that] assms by (auto simp: kept_def)
  have D: "distinct (keys (AList.update (key x) x d))" using assms by (auto simp: kept_def intro: distinct_update)
  show ?thesis unfolding step kept_def by (intro conjI D ballI A B C image_subsetI)
qed

lemma kept_fold: "kept key pref xs (fold (keep_best key pref) xs [])"
proof (induction xs rule: rev_induct)
  case (snoc x xs)
  then show ?case using kept_step by simp
qed (simp add: kept_def)

lemma kept_keys: "kept key pref xs d \<Longrightarrow> List.map key (List.map snd d) = keys d"
  by (auto simp: kept_def)

lemma kept_distinct: "kept key pref xs d \<Longrightarrow> distinct (List.map key (List.map snd d))"
  unfolding kept_keys by (simp add: kept_def)

lemma kept_best:
  assumes "kept key pref xs d" "x \<in> set xs"
  shows "\<exists>y \<in> snd ` set d. key y = key x \<and> pref x \<le> pref y"
proof -
  obtain y where y: "map_of d (key x) = Some y" "pref x \<le> pref y" using assms by (auto simp: kept_def)
  from map_of_SomeD[OF y(1)] have "(key x, y) \<in> set d" .
  with assms(1) have "key x = key y" by (auto simp: kept_def)
  with y(2) \<open>(key x, y) \<in> set d\<close> show ?thesis by force
qed

end
