(* ===== verification/Pipeline.thy ===== *)
theory Pipeline
  imports Ranking Keep_Best
begin

text \<open>
  One correlation pass, \<open>run_pass\<close> of \<open>src/correlation/engine/pipeline.py\<close>: detection over the full
  ring with the baseline gate, the event centre, the findings, the slice the correlation looks at,
  the psi edges, the writer (source) edges, the deduplication and the ranking. \<open>None\<close> and an
  absent or empty optional argument are the same in the code (\<open>caps or {}\<close>, \<open>if window\<close>, \<open>if
  write_vectors\<close>), and are the empty list or 0 here; only \<open>baselines\<close> distinguishes them.
\<close>

definition R_SRC :: real where "R_SRC = 0.5"

definition edge_pref :: "edge \<Rightarrow> nat \<times> real" where
  "edge_pref e = (if Write \<in> set (e_evidence e) then 1 else 0, \<bar>e_r e\<bar>)"

definition writer_edge ::
  "numlib \<Rightarrow> pod \<Rightarrow> pod \<Rightarrow> vec \<Rightarrow> vec \<Rightarrow> witness \<Rightarrow> real option \<Rightarrow> real option \<Rightarrow> edge option outcome" where
  "writer_edge np src dst wsrc vdst w w_onset v_onset =
     (let ks = filter (\<lambda>k. k \<in> set SOURCE_COUPLING_KINDS) (kinds w src dst)
      in if ks = [] then Ret None
         else obind (lag_profile np wsrc vdst) (\<lambda>prof.
           case argmax snd prof of
             None \<Rightarrow> Ret None
           | Some (lag, r) \<Rightarrow>
               (if r < R_SRC \<or> \<not> adjacent_support prof lag R_ADJ then Ret None
                else
                 (let emit = (\<lambda>temporal. Ret (Some \<lparr>e_src = src, e_dst = dst, e_r = py_round 3 r, e_lag = lag,
                        e_evidence = [Write] @ ks @ (if temporal then [Temporal] else [])\<rparr>))
                  in case (w_onset, v_onset) of
                       (Some tw, Some tv) \<Rightarrow> (if tw > tv + TEMPORAL_TOL_S then Ret None else emit True)
                     | _ \<Rightarrow> emit False))))"

section \<open>Detection\<close>

record finding =
  f_pod :: pod
  f_class :: shape
  f_onset_s :: real
  f_severity :: real
  f_n_onsets :: nat

type_synonym vectors = "(pod, vec) dict"
type_synonym baselines = "(pod, real option) dict"
type_synonym raw = "(pod, onset list) dict"

definition strong_onsets :: "numlib \<Rightarrow> vec \<Rightarrow> onset list" where
  "strong_onsets np vec = filter (\<lambda>o1. \<bar>o_zpeak o1\<bar> \<ge> 3) (cusum_onsets np vec)"

text \<open>The baseline gate: is the pod still learning, or within its normal band?\<close>

definition in_band :: "numlib \<Rightarrow> baselines option \<Rightarrow> nat \<Rightarrow> pod \<Rightarrow> vec \<Rightarrow> bool" where
  "in_band np bl recent p vec =
     (case bl of
        None \<Rightarrow> False
      | Some b \<Rightarrow> (case dict_get b p None of
                    None \<Rightarrow> True
                  | Some thr \<Rightarrow> np_percentile np (py_tail recent vec) 90 \<le> thr))"

definition raw_onsets :: "numlib \<Rightarrow> baselines option \<Rightarrow> nat \<Rightarrow> vectors \<Rightarrow> raw" where
  "raw_onsets np bl recent vectors =
     List.map (\<lambda>(p, vec). (p, strong_onsets np vec))
       (filter (\<lambda>(p, vec). strong_onsets np vec \<noteq> [] \<and> \<not> in_band np bl recent p vec) vectors)"

definition coupled_pods :: "witness \<Rightarrow> pod list \<Rightarrow> pod list" where
  "coupled_pods w ps = filter (\<lambda>p. list_ex (\<lambda>q. q \<noteq> p \<and> couples w p q) ps) ps"

text \<open>The strongest onset of the pods looked at; \<open>max_by\<close> on a list that is never empty here.\<close>

definition strongest :: "onset list \<Rightarrow> onset" where
  "strongest ons = max_by (\<lambda>o1. \<bar>o_zpeak o1\<bar>) (hd ons) (tl ons)"

definition center_step :: "raw \<Rightarrow> pod \<Rightarrow> real \<times> nat option \<Rightarrow> real \<times> nat option" where
  "center_step raw p best =
     (let o1 = strongest (dict_get raw p [])
      in if \<bar>o_zpeak o1\<bar> > fst best then (\<bar>o_zpeak o1\<bar>, Some (o_idx o1)) else best)"

definition event_center :: "witness \<Rightarrow> raw \<Rightarrow> nat option" where
  "event_center w raw =
     (let ps = keys raw; cs = coupled_pods w ps
      in snd (fold (center_step raw) (if cs \<noteq> [] then cs else ps) (-1, None)))"

definition event_onset :: "nat option \<Rightarrow> onset list \<Rightarrow> onset" where
  "event_onset center ons =
     (case center of
        None \<Rightarrow> hd ons
      | Some c \<Rightarrow> min_by (\<lambda>o1. \<bar>int (o_idx o1) - int c\<bar>) (hd ons) (tl ons))"

definition onset_times :: "nat option \<Rightarrow> raw \<Rightarrow> onsets" where
  "onset_times center raw = List.map (\<lambda>(p, ons). (p, of_nat (o_idx (event_onset center ons)) * DT_S)) raw"

definition findings_of :: "numlib \<Rightarrow> vectors \<Rightarrow> (pod, real) dict \<Rightarrow> nat option \<Rightarrow> raw \<Rightarrow> finding list" where
  "findings_of np vectors caps center raw =
     List.map (\<lambda>(p, ons).
       let ev = event_onset center ons in
       \<lparr>f_pod = p, f_class = classify np (dict_get vectors p []) (o_idx ev) (map_of caps p),
        f_onset_s = of_nat (o_idx ev) * DT_S, f_severity = min (\<bar>o_zpeak ev\<bar> / 10) 1,
        f_n_onsets = length ons\<rparr>) raw"

text \<open>The writers that deviated, on their own signal.\<close>

definition write_onsets :: "numlib \<Rightarrow> nat option \<Rightarrow> vectors \<Rightarrow> onsets" where
  "write_onsets np center wvs =
     onset_times center
       (filter (\<lambda>(p, ons). ons \<noteq> []) (List.map (\<lambda>(p, wv). (p, strong_onsets np wv)) wvs))"

section \<open>Edges\<close>

definition slice_lo :: "nat \<Rightarrow> nat \<Rightarrow> nat \<Rightarrow> nat" where
  "slice_lo window c n = nat (max 0 (min (int c - int (window div 3)) (int n - int window)))"

definition event_slice :: "nat \<Rightarrow> nat option \<Rightarrow> vectors \<Rightarrow> vectors \<Rightarrow> vectors" where
  "event_slice window center vectors vs =
     (case center of
        None \<Rightarrow> vs
      | Some c \<Rightarrow>
          (if window = 0 then vs
           else (let lo = slice_lo window c (length (snd (hd vectors)))
                 in List.map (\<lambda>(p, v). (p, py_slice lo (lo + window) v)) vs)))"

fun pairs :: "'a list \<Rightarrow> ('a \<times> 'a) list" where
  "pairs [] = []"
| "pairs (x # xs) = List.map (\<lambda>y. (x, y)) xs @ pairs xs"

definition psi_edge :: "numlib \<Rightarrow> vectors \<Rightarrow> witness \<Rightarrow> onsets \<Rightarrow> pod set \<Rightarrow> pod \<times> pod \<Rightarrow> edge option outcome" where
  "psi_edge np cvec w onset_s active ab =
     (case ab of (a, b) \<Rightarrow>
        if \<not> couples w a b then Ret None
        else if a \<notin> active \<and> b \<notin> active \<and> active = {} then Ret None
        else obind (best_directed np (dict_get cvec a []) (dict_get cvec b [])) (\<lambda>d.
          let sd = (if d_forward d then (a, b) else (b, a))
          in Ret (accept_edge (fst sd) (snd sd) (d_r d) (d_lag d) (d_profile d) w onset_s)))"

definition somes :: "'a option list \<Rightarrow> 'a list" where
  "somes xs = concat (List.map (\<lambda>x. case x of None \<Rightarrow> [] | Some y \<Rightarrow> [y]) xs)"

definition psi_edges :: "numlib \<Rightarrow> vectors \<Rightarrow> witness \<Rightarrow> onsets \<Rightarrow> pod set \<Rightarrow> edge list outcome" where
  "psi_edges np cvec w onset_s active =
     obind (omap (psi_edge np cvec w onset_s active) (pairs (sort (keys cvec)))) (\<lambda>es. Ret (somes es))"

text \<open>\<open>np.max\<close> raises a \<open>ValueError\<close> on an empty array.\<close>

definition write_activity :: "numlib \<Rightarrow> vectors \<Rightarrow> (pod, real) dict outcome" where
  "write_activity np wvs =
     omap (\<lambda>(p, wv). if wv = [] then Raise ValueError else Ret (p, np_max np (List.map abs wv))) wvs"

definition source_edge ::
  "numlib \<Rightarrow> vectors \<Rightarrow> vectors \<Rightarrow> witness \<Rightarrow> onsets \<Rightarrow> onsets \<Rightarrow> (pod, real) dict \<Rightarrow> pod set \<Rightarrow> pod \<times> pod \<Rightarrow> edge option outcome" where
  "source_edge np cvec wvs w onset_s w_onset_s act active wv =
     (case wv of (p, v) \<Rightarrow>
        if p \<notin> fst ` set w_onset_s then Ret None
        else if v = p \<or> \<not> couples_source w p v then Ret None
        else if v \<notin> active then Ret None
        else if dict_get act p 0 \<le> dict_get act v 0 then Ret None
        else writer_edge np p v (dict_get wvs p []) (dict_get cvec v []) w (map_of w_onset_s p) (map_of onset_s v))"

definition source_edges ::
  "numlib \<Rightarrow> vectors \<Rightarrow> vectors \<Rightarrow> witness \<Rightarrow> onsets \<Rightarrow> onsets \<Rightarrow> pod set \<Rightarrow> edge list outcome" where
  "source_edges np cvec wvs w onset_s w_onset_s active =
     obind (write_activity np wvs) (\<lambda>act.
       obind (omap (source_edge np cvec wvs w onset_s w_onset_s act active)
               (List.product (sort (keys wvs)) (sort (keys cvec))))
         (\<lambda>es. Ret (somes es)))"

definition choose_step :: "edge \<Rightarrow> (pod set, edge) dict \<Rightarrow> (pod set, edge) dict" where
  "choose_step e chosen =
     (let pair = {e_src e, e_dst e}
      in case map_of chosen pair of
           None \<Rightarrow> AList.update pair e chosen
         | Some e' \<Rightarrow> (if edge_pref e > edge_pref e' then AList.update pair e chosen else chosen))"

definition dedup :: "edge list \<Rightarrow> edge list" where
  "dedup es = sort_key (\<lambda>e. (e_src e, e_dst e)) (List.map snd (fold choose_step es []))"

definition pass_edges ::
  "numlib \<Rightarrow> vectors \<Rightarrow> vectors \<Rightarrow> witness \<Rightarrow> onsets \<Rightarrow> onsets \<Rightarrow> pod set \<Rightarrow> edge list outcome" where
  "pass_edges np cvec wvs w onset_s w_onset_s active =
     obind (psi_edges np cvec w onset_s active) (\<lambda>psi.
       if wvs = [] then Ret psi
       else obind (source_edges np cvec wvs w onset_s w_onset_s active) (\<lambda>src. Ret (dedup (psi @ src))))"

section \<open>The pass\<close>

record meta =
  m_pods :: nat
  m_active :: nat
  m_edges :: nat

record graph =
  g_findings :: "finding list"
  g_edges :: "edge list"
  g_ranking :: "root_cause list"
  g_blast :: "victim list"
  g_meta :: meta

definition run_pass ::
  "numlib \<Rightarrow> 'g nxlib \<Rightarrow> vectors \<Rightarrow> witness \<Rightarrow> pod list \<Rightarrow> (pod, real) dict \<Rightarrow> nat \<Rightarrow> vectors \<Rightarrow>
   baselines option \<Rightarrow> nat \<Rightarrow> graph outcome" where
  "run_pass np nx vectors w slo_breach caps window wvs bl recent =
     (let raw = raw_onsets np bl recent vectors;
          center = event_center w raw;
          onset_s = onset_times center raw;
          findings = findings_of np vectors caps center raw;
          active = set (List.map f_pod findings)
      in obind (pass_edges np (event_slice window center vectors vectors) (event_slice window center vectors wvs)
                  w onset_s (write_onsets np center wvs) active) (\<lambda>edges.
         let g = build_graph nx edges;
             seeds = (if slo_breach \<noteq> [] then slo_breach else sort (List.map f_pod findings))
         in obind (rank_root_causes nx g seeds onset_s 3) (\<lambda>ranking.
            obind (case ranking of [] \<Rightarrow> Ret [] | r # _ \<Rightarrow> blast_radius nx g (rc_pod r)) (\<lambda>blast.
            Ret \<lparr>g_findings = sort_key f_onset_s findings, g_edges = edges, g_ranking = ranking, g_blast = blast,
                 g_meta = \<lparr>m_pods = length vectors, m_active = card active, m_edges = length edges\<rparr>\<rparr>))))"

section \<open>Lemmas: detection and the slice\<close>

lemma somes_mem [simp]: "e \<in> set (somes xs) \<longleftrightarrow> Some e \<in> set xs"
  by (force simp: somes_def split: option.splits)

lemma somes_map_None [simp]: "somes (List.map (\<lambda>_. None) xs) = []"
  by (induction xs) (simp_all add: somes_def)

lemma keys_event_slice [simp]: "keys (event_slice window c vectors vs) = keys vs"
  by (simp add: event_slice_def Let_def comp_def case_prod_beta split: option.split)

lemma event_slice_Nil [simp]: "event_slice window c vectors vs = [] \<longleftrightarrow> vs = []"
  by (simp add: event_slice_def Let_def split: option.split)

lemma findings_of_pods: "List.map f_pod (findings_of np vectors caps c raw) = keys raw"
  by (simp add: findings_of_def comp_def case_prod_beta Let_def)

lemma keys_raw_onsets: "set (keys (raw_onsets np bl recent vectors)) \<subseteq> set (keys vectors)"
  by (force simp: raw_onsets_def)

lemma raw_onsets_distinct: "distinct (keys vectors) \<Longrightarrow> distinct (keys (raw_onsets np bl recent vectors))"
  by (simp add: raw_onsets_def comp_def case_prod_beta distinct_map_filter)

lemma raw_onsets_mem:
  "(p, ons) \<in> set (raw_onsets np bl recent vectors) \<longleftrightarrow>
   (\<exists>vec. (p, vec) \<in> set vectors \<and> ons = strong_onsets np vec \<and> ons \<noteq> [] \<and> \<not> in_band np bl recent p vec)"
  by (force simp: raw_onsets_def)

lemma onset_times_keys [simp]: "fst ` set (onset_times c raw) = fst ` set raw"
  by (force simp: onset_times_def)

lemma event_onset_mem: "ons \<noteq> [] \<Longrightarrow> event_onset c ons \<in> set ons"
  using min_by_mem[of "\<lambda>o1. \<bar>int (o_idx o1) - int (the c)\<bar>" "hd ons" "tl ons"]
  by (cases ons) (auto simp: event_onset_def split: option.split)

lemma finding_onset:
  "f \<in> set (findings_of np vectors caps c raw) \<Longrightarrow> distinct (keys raw) \<Longrightarrow>
   map_of (onset_times c raw) (f_pod f) = Some (f_onset_s f)"
  by (auto simp: findings_of_def onset_times_def Let_def map_of_map[symmetric] comp_def case_prod_beta
      intro!: map_of_is_SomeI imageI rev_image_eqI)

lemma event_center_Nil [simp]: "event_center w [] = None"
  by (simp add: event_center_def coupled_pods_def)

section \<open>Lemmas: the writer rule is an edge rule\<close>

lemma writer_edge_SomeD:
  assumes "writer_edge np a b x y w tw tv = Ret (Some e)"
  shows "e_src e = a" "e_dst e = b" "couples_source w a b" "Write \<in> set (e_evidence e)" "R_SRC \<le> e_r e"
    "tw = Some s \<Longrightarrow> tv = Some t \<Longrightarrow> s \<le> t + TEMPORAL_TOL_S"
proof -
  have ks: "filter (\<lambda>k. k \<in> set SOURCE_COUPLING_KINDS) (kinds w a b) \<noteq> []"
    using assms by (auto simp: writer_edge_def Let_def split: if_splits)
  then obtain prof where prof: "lag_profile np x y = Ret prof"
    using assms by (auto simp: writer_edge_def Let_def outcome_simps)
  then obtain lag r where r: "argmax snd prof = Some (lag, r)"
    using assms ks by (auto simp: writer_edge_def Let_def split: option.splits)
  have ok: "\<not> (r < R_SRC \<or> \<not> adjacent_support prof lag R_ADJ)"
    using assms ks prof r by (auto simp: writer_edge_def Let_def split: if_splits)
  note e = assms[unfolded writer_edge_def Let_def, simplified ks prof r obind.simps option.case prod.case ok if_False]
  show "e_src e = a" "e_dst e = b" "Write \<in> set (e_evidence e)"
    using e by (auto split: option.splits if_splits)
  show "couples_source w a b" using ks by (auto simp: couples_source_def list_ex_iff filter_empty_conv)
  have "e_r e = py_round 3 r" using e by (auto split: option.splits if_splits)
  then show "R_SRC \<le> e_r e" using ok py_round_mono[of R_SRC r 3] by (simp add: R_SRC_def)
  show "tw = Some s \<Longrightarrow> tv = Some t \<Longrightarrow> s \<le> t + TEMPORAL_TOL_S" using e by (simp split: if_splits)
qed

definition writer_admits :: "witness \<Rightarrow> onsets \<Rightarrow> onsets \<Rightarrow> numlib \<times> vec \<times> vec \<Rightarrow> pod \<Rightarrow> pod \<Rightarrow> edge \<Rightarrow> bool" where
  "writer_admits w os od x a b e \<longleftrightarrow>
     (case x of (np, wsrc, vdst) \<Rightarrow> writer_edge np a b wsrc vdst w (map_of os a) (map_of od b) = Ret (Some e))"

interpretation writer_rule: edge_rule writer_admits couples_source R_SRC Write
proof
  fix w os od x a b e
  assume "writer_admits w os od x a b e"
  then obtain np wsrc vdst where acc: "writer_edge np a b wsrc vdst w (map_of os a) (map_of od b) = Ret (Some e)"
    by (auto simp: writer_admits_def split: prod.splits)
  note acc' = writer_edge_SomeD[OF acc]
  show "e_src e = a \<and> e_dst e = b" "couples_source w a b" "R_SRC \<le> e_r e" "Write \<in> set (e_evidence e)"
    using acc' by auto
  show "map_of os a = Some ta \<Longrightarrow> map_of od b = Some tb \<Longrightarrow> ta \<le> tb + TEMPORAL_TOL_S" for ta tb
    using acc'(6) by simp
qed

section \<open>Lemmas: the edges of a pass\<close>

lemma pairs_mem: "(a, b) \<in> set (pairs xs) \<Longrightarrow> a \<in> set xs \<and> b \<in> set xs \<and> (distinct xs \<longrightarrow> a \<noteq> b)"
  by (induction xs) auto

lemma pairs_unordered: "distinct xs \<Longrightarrow> distinct (List.map (\<lambda>(a, b). {a, b}) (pairs xs))"
proof (induction xs)
  case (Cons x xs)
  have "distinct (List.map (\<lambda>y. {x, y}) xs)"
    using Cons.prems by (auto simp: distinct_map inj_on_def doubleton_eq_iff)
  moreover have "x \<notin> a" if "a \<in> (\<lambda>(a, b). {a, b}) ` set (pairs xs)" for a
    using that Cons.prems by (auto dest: pairs_mem)
  ultimately show ?case using Cons by (auto simp: comp_def)
qed simp

lemma psi_edge_SomeD:
  assumes "psi_edge np cvec w os active (a, b) = Ret (Some e)"
  shows "active \<noteq> {}" "{e_src e, e_dst e} = {a, b}" "\<exists>x. gate_admits w os os x (e_src e) (e_dst e) e"
proof -
  show "active \<noteq> {}" using assms by (auto simp: psi_edge_def split: if_splits)
  have c: "couples w a b" "\<not> (a \<notin> active \<and> b \<notin> active \<and> active = {})"
    using assms by (auto simp: psi_edge_def split: if_splits)
  obtain d :: directed where acc: "accept_edge (fst (if d_forward d then (a, b) else (b, a)))
      (snd (if d_forward d then (a, b) else (b, a))) (d_r d) (d_lag d) (d_profile d) w os = Some e"
    using assms unfolding psi_edge_def Let_def prod.case
    by (simp only: c not_True_eq_False if_False obind_eq_Ret outcome.inject) blast
  note ends = accept_edge_SomeD(1,2)[OF acc]
  then show "{e_src e, e_dst e} = {a, b}" by (auto split: if_splits)
  show "\<exists>x. gate_admits w os os x (e_src e) (e_dst e) e"
    by (rule exI[of _ "(d_r d, d_lag d, d_profile d)"]) (use acc ends in \<open>simp add: gate_admits_def\<close>)
qed

lemma psi_edges_mem:
  assumes "psi_edges np cvec w os active = Ret es" "e \<in> set es"
  shows "\<exists>a b. (a, b) \<in> set (pairs (sort (keys cvec))) \<and> psi_edge np cvec w os active (a, b) = Ret (Some e)"
  using assms by (auto simp: psi_edges_def outcome_simps dest!: omap_memD)

lemma source_edge_SomeD:
  assumes "source_edge np cvec wvs w os wos act active (p, v) = Ret (Some e)"
  shows "p \<in> fst ` set wos" "v \<noteq> p" "v \<in> active" "dict_get act v 0 < dict_get act p 0"
    "e_src e = p" "e_dst e = v" "\<exists>x. writer_admits w wos os x p v e"
proof -
  have e: "writer_edge np p v (dict_get wvs p []) (dict_get cvec v []) w (map_of wos p) (map_of os v) = Ret (Some e)"
    using assms by (auto simp: source_edge_def split: if_splits)
  show "p \<in> fst ` set wos" "v \<noteq> p" "v \<in> active" "dict_get act v 0 < dict_get act p 0"
    using assms by (auto simp: source_edge_def split: if_splits)
  show "e_src e = p" "e_dst e = v" using writer_edge_SomeD[OF e] by auto
  show "\<exists>x. writer_admits w wos os x p v e"
    by (rule exI[of _ "(np, dict_get wvs p [], dict_get cvec v [])"]) (simp add: writer_admits_def e)
qed

lemma source_edges_mem:
  assumes "source_edges np cvec wvs w os wos active = Ret es" "e \<in> set es"
  shows "\<exists>act p v. write_activity np wvs = Ret act \<and> p \<in> set (keys wvs) \<and>
    source_edge np cvec wvs w os wos act active (p, v) = Ret (Some e)"
  using assms by (fastforce simp: source_edges_def outcome_simps dest!: omap_memD)

section \<open>Lemmas: deduplication\<close>

lemma choose_step_keep: "choose_step = keep_best (\<lambda>e. {e_src e, e_dst e}) edge_pref"
  by (intro ext) (simp add: choose_step_def keep_best_def Let_def)

lemmas dedup_kept = kept_fold[of "\<lambda>e. {e_src e, e_dst e}" edge_pref, folded choose_step_keep]

lemma dedup_set: "set (dedup es) = snd ` set (fold choose_step es [])"
  by (simp add: dedup_def)

lemma dedup_subset: "set (dedup es) \<subseteq> set es"
  using dedup_kept[of es] by (simp add: kept_def dedup_set)

lemma dedup_pairs: "distinct (List.map (\<lambda>e. {e_src e, e_dst e}) (dedup es))"
proof -
  let ?ch = "fold choose_step es []"
  have "mset (List.map (\<lambda>e. {e_src e, e_dst e}) (dedup es)) = mset (List.map (\<lambda>e. {e_src e, e_dst e}) (List.map snd ?ch))"
    by (simp add: dedup_def image_mset.compositionality)
  then have "distinct (List.map (\<lambda>e. {e_src e, e_dst e}) (dedup es)) \<longleftrightarrow> distinct (List.map (\<lambda>e. {e_src e, e_dst e}) (List.map snd ?ch))"
    by (rule mset_eq_imp_distinct_iff)
  then show ?thesis using kept_distinct[OF dedup_kept] by blast
qed

lemma dedup_best: "e \<in> set es \<Longrightarrow> \<exists>e' \<in> set (dedup es). {e_src e', e_dst e'} = {e_src e, e_dst e} \<and> edge_pref e \<le> edge_pref e'"
  using kept_best[OF dedup_kept[of es]] by (simp add: dedup_set)

section \<open>Lemmas: the pass\<close>

lemma psi_edges_idle: "psi_edges np cvec w os {} = Ret []"
proof -
  have "psi_edge np cvec w os {} ab = Ret None" for ab by (cases ab) (simp add: psi_edge_def)
  then show ?thesis by (simp add: psi_edges_def omap_Ret_map[of _ _ "\<lambda>_. None"])
qed

lemma write_activity_total:
  "\<forall>(p, wv) \<in> set wvs. wv \<noteq> [] \<Longrightarrow> \<exists>act. write_activity np wvs = Ret act"
  unfolding write_activity_def by (rule omap_total) auto

lemma source_edges_idle:
  assumes "\<forall>(p, wv) \<in> set wvs. wv \<noteq> []"
  shows "source_edges np cvec wvs w os wos {} = Ret []"
proof -
  have "source_edge np cvec wvs w os wos act {} ab = Ret None" for act ab by (cases ab) (simp add: source_edge_def)
  then show ?thesis
    using write_activity_total[OF assms, of np]
    by (auto simp: source_edges_def omap_Ret_map[of _ _ "\<lambda>_. None"])
qed

lemma event_slice_nonempty:
  assumes "\<forall>(p, v) \<in> set vs. v \<noteq> []" "c = None"
  shows "\<forall>(p, v) \<in> set (event_slice window c vectors vs). v \<noteq> []"
  using assms by (simp add: event_slice_def)

lemma run_pass_RetD:
  fixes np bl recent vectors w
  defines "raw \<equiv> raw_onsets np bl recent vectors"
  defines "c \<equiv> event_center w raw"
  assumes "run_pass np nx vectors w slo caps window wvs bl recent = Ret g"
  shows "pass_edges np (event_slice window c vectors vectors) (event_slice window c vectors wvs) w
      (onset_times c raw) (write_onsets np c wvs) (set (keys raw)) = Ret (g_edges g)"
    "g_findings g = sort_key f_onset_s (findings_of np vectors caps c raw)"
    "set (keys raw) = f_pod ` set (g_findings g)"
proof -
  have pods: "set (keys raw) = f_pod ` set (findings_of np vectors caps c raw)"
    using findings_of_pods[of np vectors caps c raw] by (metis set_map)
  show "pass_edges np (event_slice window c vectors vectors) (event_slice window c vectors wvs) w
      (onset_times c raw) (write_onsets np c wvs) (set (keys raw)) = Ret (g_edges g)"
    and g: "g_findings g = sort_key f_onset_s (findings_of np vectors caps c raw)"
    using assms(3) pods[symmetric] by (auto simp: run_pass_def Let_def outcome_simps raw_def c_def)
  show "set (keys raw) = f_pod ` set (g_findings g)" using pods by (simp add: g)
qed

lemma pass_edges_mem:
  assumes "pass_edges np cvec wvs w os wos active = Ret es" "e \<in> set es"
  shows "(\<exists>a b. (a, b) \<in> set (pairs (sort (keys cvec))) \<and> psi_edge np cvec w os active (a, b) = Ret (Some e)) \<or>
    (\<exists>act p v. write_activity np wvs = Ret act \<and> p \<in> set (keys wvs) \<and>
      source_edge np cvec wvs w os wos act active (p, v) = Ret (Some e))"
proof -
  obtain psi where psi: "psi_edges np cvec w os active = Ret psi"
    using assms(1) by (auto simp: pass_edges_def outcome_simps)
  have "e \<in> set psi \<or> (\<exists>src. source_edges np cvec wvs w os wos active = Ret src \<and> e \<in> set src)"
    using assms psi dedup_subset by (fastforce simp: pass_edges_def outcome_simps split: if_splits)
  then show ?thesis using psi_edges_mem[OF psi] source_edges_mem by blast
qed

lemma psi_edges_pairs_distinct:
  assumes "psi_edges np cvec w os active = Ret es" "distinct (keys cvec)"
  shows "distinct (List.map (\<lambda>e. {e_src e, e_dst e}) es)"
proof -
  obtain os' where o: "omap (psi_edge np cvec w os active) (pairs (sort (keys cvec))) = Ret os'" "es = somes os'"
    using assms(1) by (auto simp: psi_edges_def outcome_simps)
  have "list_all2 (\<lambda>ab x. psi_edge np cvec w os active ab = Ret x) ps xs \<Longrightarrow>
    distinct (List.map (\<lambda>(a, b). {a, b}) ps) \<Longrightarrow>
    distinct (List.map (\<lambda>e. {e_src e, e_dst e}) (somes xs)) \<and>
    (\<lambda>e. {e_src e, e_dst e}) ` set (somes xs) \<subseteq> (\<lambda>(a, b). {a, b}) ` set ps" for ps xs
  proof (induction rule: list_all2_induct)
    case (Cons ab ps x xs)
    obtain a b where ab: "ab = (a, b)" by (cases ab)
    have IH: "distinct (List.map (\<lambda>e. {e_src e, e_dst e}) (somes xs))"
      "(\<lambda>e. {e_src e, e_dst e}) ` set (somes xs) \<subseteq> (\<lambda>(a, b). {a, b}) ` set ps"
      and new: "{a, b} \<notin> (\<lambda>(a, b). {a, b}) ` set ps" using Cons ab by auto
    show ?case
    proof (cases x)
      case None
      then show ?thesis using IH by (auto simp: somes_def)
    next
      case (Some e)
      have e: "{e_src e, e_dst e} = {a, b}" using psi_edge_SomeD(2) Cons.hyps(1) by (simp add: ab Some)
      have s: "somes (x # xs) = e # somes xs" by (simp add: somes_def Some)
      have "{a, b} \<notin> (\<lambda>e. {e_src e, e_dst e}) ` set (somes xs)" using IH(2) new by blast
      then show ?thesis unfolding s using IH e by (auto simp: ab simp del: somes_mem)
    qed
  qed (simp add: somes_def)
  from this[OF o(1)[unfolded omap_eq_Ret] pairs_unordered] show ?thesis using assms(2) o(2) by simp
qed

section \<open>Lemmas: the pass returns\<close>

definition sized :: "nat \<Rightarrow> vectors \<Rightarrow> bool" where
  "sized n vs \<longleftrightarrow> (\<forall>(p, v) \<in> set vs. length v = n)"

lemma sized_get: "sized n vs \<Longrightarrow> p \<in> set (keys vs) \<Longrightarrow> length (dict_get vs p []) = n"
  by (auto simp: sized_def dict_get_def map_of_eq_None_iff split: option.split dest!: map_of_SomeD)

lemma slice_lo_less: "0 < n \<Longrightarrow> 0 < window \<Longrightarrow> slice_lo window c n < n"
  by (auto simp: slice_lo_def)

text \<open>All slices of equally long vectors have one length, and are not empty.\<close>

lemma event_slice_sized:
  assumes "0 < n" "sized n vectors" "vectors = [] \<Longrightarrow> c = None"
  shows "\<exists>m > 0. \<forall>vs. sized n vs \<longrightarrow> sized m (event_slice window c vectors vs)"
proof (cases "c = None \<or> window = 0")
  case True
  then show ?thesis using assms(1) by (intro exI[of _ n]) (auto simp: event_slice_def split: option.split)
next
  case False
  then obtain k where k: "c = Some k" "0 < window" "vectors \<noteq> []" using assms(3) by auto
  let ?lo = "slice_lo window k n"
  have "length (snd (hd vectors)) = n" using assms(2) k(3) by (cases vectors) (auto simp: sized_def)
  then have "sized (min (?lo + window) n - ?lo) (event_slice window c vectors vs)" if "sized n vs" for vs
    using that k by (auto simp: event_slice_def sized_def Let_def)
  moreover have "0 < min (?lo + window) n - ?lo" using slice_lo_less[of n window k] assms(1) k(2) by simp
  ultimately show ?thesis by blast
qed

lemma rounded_correlation: "0 \<le> r \<Longrightarrow> \<bar>r\<bar> \<le> 1 \<Longrightarrow> \<bar>py_round 3 r\<bar> \<le> 1"
  using py_round_nonneg[of r 3] py_round_le_1[of r 3] by linarith

lemma psi_edge_returns:
  assumes "corr_bounded np" "0 < m" "sized m cvec" "a \<in> set (keys cvec)" "b \<in> set (keys cvec)"
  shows "\<exists>x. psi_edge np cvec w os active (a, b) = Ret x \<and> (\<forall>e. x = Some e \<longrightarrow> \<bar>e_r e\<bar> \<le> 1)"
proof -
  have "dict_get cvec a [] \<noteq> []" "dict_get cvec b [] \<noteq> []"
    using sized_get[OF assms(3,4)] sized_get[OF assms(3,5)] assms(2) by auto
  then obtain d where d: "best_directed np (dict_get cvec a []) (dict_get cvec b []) = Ret d"
    using best_directed_total by blast
  have "\<bar>e_r e\<bar> \<le> 1" if "accept_edge s t (d_r d) (d_lag d) (d_profile d) w os = Some e" for s t e
    using accept_edge_SomeD(4,5)[OF that] best_directed_bounded[OF assms(1) d] rounded_correlation[of "d_r d"]
    by (simp add: R_PEAK_def)
  then show ?thesis by (auto simp: psi_edge_def d Let_def)
qed

lemma writer_edge_returns:
  assumes "corr_bounded np" "length x = length y"
  shows "\<exists>oe. writer_edge np a b x y w tw tv = Ret oe \<and> (\<forall>e. oe = Some e \<longrightarrow> \<bar>e_r e\<bar> \<le> 1)"
proof -
  obtain prof where prof: "lag_profile np x y = Ret prof" using lag_profile_total[OF assms(2)] by blast
  have r: "\<bar>r\<bar> \<le> 1" if "argmax snd prof = Some (lag, r)" for lag r
    using argmax_SomeD[OF that] lag_profile_mem[OF prof] corr_at_lag_bounded[OF assms(1)] by blast
  show ?thesis
    using r by (auto simp: writer_edge_def prof Let_def R_SRC_def not_less intro!: rounded_correlation
        split: option.split prod.split)
qed

lemma omap_somes_returns:
  assumes "\<And>x. x \<in> set xs \<Longrightarrow> \<exists>y. f x = Ret y \<and> (\<forall>e. y = Some e \<longrightarrow> P e)"
  shows "\<exists>ys. omap f xs = Ret ys \<and> (\<forall>e \<in> set (somes ys). P e)"
proof -
  obtain ys where ys: "omap f xs = Ret ys" using omap_total[of xs f] assms by blast
  have "P e" if "Some e \<in> set ys" for e
    using omap_memD[OF ys that] assms by fastforce
  then show ?thesis using ys by auto
qed

lemma pass_edges_returns:
  assumes "corr_bounded np" "0 < m" "sized m cvec" "sized m wvs"
  shows "\<exists>es. pass_edges np cvec wvs w os wos active = Ret es \<and> (\<forall>e \<in> set es. \<bar>e_r e\<bar> \<le> 1)"
proof -
  have "\<exists>x. psi_edge np cvec w os active ab = Ret x \<and> (\<forall>e. x = Some e \<longrightarrow> \<bar>e_r e\<bar> \<le> 1)"
    if "ab \<in> set (pairs (sort (keys cvec)))" for ab
  proof -
    have "fst ab \<in> set (keys cvec)" "snd ab \<in> set (keys cvec)"
      using that pairs_mem[of "fst ab" "snd ab" "sort (keys cvec)"] by simp_all
    from psi_edge_returns[OF assms(1-3) this] show ?thesis by simp
  qed
  from omap_somes_returns[of "pairs (sort (keys cvec))" "psi_edge np cvec w os active" "\<lambda>e. \<bar>e_r e\<bar> \<le> 1", OF this] obtain psi where
    psi: "psi_edges np cvec w os active = Ret psi" "\<forall>e \<in> set psi. \<bar>e_r e\<bar> \<le> 1"
    by (auto simp: psi_edges_def)
  have "\<forall>(p, wv) \<in> set wvs. wv \<noteq> []" using assms(2,4) by (auto simp: sized_def)
  then obtain act where act: "write_activity np wvs = Ret act" using write_activity_total by blast
  have "\<exists>x. source_edge np cvec wvs w os wos act active pv = Ret x \<and> (\<forall>e. x = Some e \<longrightarrow> \<bar>e_r e\<bar> \<le> 1)"
    if "pv \<in> set (List.product (sort (keys wvs)) (sort (keys cvec)))" for pv
  proof -
    obtain p v where pv: "pv = (p, v)" by (cases pv)
    with that have pv: "pv = (p, v)" "p \<in> set (keys wvs)" "v \<in> set (keys cvec)" by simp_all
    have "length (dict_get wvs p []) = length (dict_get cvec v [])"
      using sized_get[OF assms(4) pv(2)] sized_get[OF assms(3) pv(3)] by simp
    from writer_edge_returns[OF assms(1) this] show ?thesis by (simp add: source_edge_def pv(1))
  qed
  from omap_somes_returns[of "List.product (sort (keys wvs)) (sort (keys cvec))"
      "source_edge np cvec wvs w os wos act active" "\<lambda>e. \<bar>e_r e\<bar> \<le> 1", OF this] obtain src where
    src: "source_edges np cvec wvs w os wos active = Ret src" "\<forall>e \<in> set src. \<bar>e_r e\<bar> \<le> 1"
    by (auto simp: source_edges_def act)
  have "\<forall>e \<in> set (dedup (psi @ src)). \<bar>e_r e\<bar> \<le> 1" using dedup_subset[of "psi @ src"] psi(2) src(2) by auto
  then show ?thesis using psi src by (simp add: pass_edges_def)
qed

lemma run_pass_returns:
  assumes "digraph_laws nx" "corr_bounded np" "0 < n" "sized n vectors" "sized n wvs"
  shows "\<exists>g. run_pass np nx vectors w slo caps window wvs bl recent = Ret g \<and> (\<forall>e \<in> set (g_edges g). \<bar>e_r e\<bar> \<le> 1)"
proof -
  let ?raw = "raw_onsets np bl recent vectors"
  let ?c = "event_center w ?raw"
  have "vectors = [] \<Longrightarrow> ?c = None" by (simp add: raw_onsets_def)
  from event_slice_sized[OF assms(3,4) this, where window = window]
  obtain m where m: "0 < m" "sized m (event_slice window ?c vectors vectors)" "sized m (event_slice window ?c vectors wvs)"
    using assms(4,5) by blast
  obtain es where es: "pass_edges np (event_slice window ?c vectors vectors) (event_slice window ?c vectors wvs) w
      (onset_times ?c ?raw) (write_onsets np ?c wvs) (set (List.map f_pod (findings_of np vectors caps ?c ?raw))) = Ret es"
    "\<forall>e \<in> set es. \<bar>e_r e\<bar> \<le> 1" using pass_edges_returns[OF assms(2) m] by blast
  obtain rs where rs: "rank_root_causes nx (build_graph nx es)
      (if slo \<noteq> [] then slo else sort (List.map f_pod (findings_of np vectors caps ?c ?raw))) (onset_times ?c ?raw) 3 = Ret rs"
    using rank_root_causes_returns[OF assms(1) es(2)] by blast
  have "\<exists>ds. (case rs of [] \<Rightarrow> Ret [] | r # _ \<Rightarrow> blast_radius nx (build_graph nx es) (rc_pod r)) = Ret ds"
    using blast_radius_returns[OF assms(1)] by (cases rs) auto
  then obtain ds where "(case rs of [] \<Rightarrow> Ret [] | r # _ \<Rightarrow> blast_radius nx (build_graph nx es) (rc_pod r)) = Ret ds" ..
  with es rs show ?thesis by (simp add: run_pass_def Let_def del: set_map)
qed

lemma run_pass_silent:
  assumes "digraph_laws nx"
    and "\<forall>(p, vec) \<in> set vectors. strong_onsets np vec = [] \<or> in_band np bl recent p vec"
    and "\<forall>(p, wv) \<in> set wvs. wv \<noteq> []"
  shows "run_pass np nx vectors w slo caps window wvs bl recent =
    Ret \<lparr>g_findings = [], g_edges = [], g_ranking = [], g_blast = [],
         g_meta = \<lparr>m_pods = length vectors, m_active = 0, m_edges = 0\<rparr>\<rparr>"
proof -
  have raw: "raw_onsets np bl recent vectors = []"
    using assms(2) by (auto simp: raw_onsets_def filter_empty_conv)
  have "nx_number_of_edges nx (build_graph nx ([] :: edge list)) = 0"
    using build_graph_no_edges[OF assms(1), of "[] :: edge list"] by simp
  moreover have "pass_edges np (event_slice window None vectors vectors) (event_slice window None vectors wvs) w
      (onset_times None []) wos {} = Ret []" for wos
    using source_edges_idle[OF event_slice_nonempty[OF assms(3)]]
    by (simp add: pass_edges_def psi_edges_idle dedup_def)
  ultimately show ?thesis
    by (simp add: run_pass_def raw findings_of_def rank_root_causes_def Let_def)
qed

section \<open>Properties\<close>

definition steady_num :: numlib where
  "steady_num = quick_num\<lparr>np_mean := (\<lambda>_. 0), np_std := (\<lambda>_. 1), sp_pearsonr := (\<lambda>_ _. Some (9 / 10))\<rparr>"

definition writer_disk :: witness where
  "writer_disk = \<lparr>ebpf_edges = [], psi_copressure = [], shared_relation = [{''a'', ''b''}], same_node = []\<rparr>"

definition writer_edge_found :: edge where
  "writer_edge_found =
     \<lparr>e_src = ''b'', e_dst = ''a'', e_r = 9 / 10, e_lag = 0, e_evidence = [Write, Pvc, Temporal]\<rparr>"

definition writer_graph :: graph where
  "writer_graph =
     \<lparr>g_findings = [\<lparr>f_pod = ''a'', f_class = Shift, f_onset_s = 65, f_severity = 1, f_n_onsets = 2\<rparr>],
      g_edges = [writer_edge_found],
      g_ranking = [\<lparr>rc_pod = ''b'', rc_score = 1, rc_onset = None\<rparr>],
      g_blast = [\<lparr>v_pod = ''a'', v_impact = 63 / 100, v_eta = 0\<rparr>],
      g_meta = \<lparr>m_pods = 2, m_active = 1, m_edges = 1\<rparr>\<rparr>"

text \<open>A whole pass, evaluated: \<open>b\<close> writes and never stalls, \<open>a\<close> stalls; \<open>b\<close> is blamed.\<close>

lemma writer_pass:
  "run_pass steady_num log_nx [(''a'', replicate 13 0 @ [9, 9, 9, 9]), (''b'', replicate 17 1)] writer_disk [] [] 0
     [(''b'', replicate 13 0 @ [9, 9, 9, 9])] None 0 = Ret writer_graph"
  by code_simp

text \<open>C1. Steady state is silent: when no pod has a strong onset outside its normal band, the pass
  reports no finding, no edge, no root cause and no victim, whatever the witness, the SLO breaches
  and the write activity are, and whatever was correlated.\<close>

theorem steady_state_is_silent:
  assumes "digraph_laws nx"
    and "\<forall>(p, vec) \<in> set vectors. strong_onsets np vec = [] \<or> in_band np bl recent p vec"
    and "\<forall>(p, wv) \<in> set wvs. wv \<noteq> []"
  shows "run_pass np nx vectors w slo caps window wvs bl recent =
    Ret \<lparr>g_findings = [], g_edges = [], g_ranking = [], g_blast = [],
         g_meta = \<lparr>m_pods = length vectors, m_active = 0, m_edges = 0\<rparr>\<rparr>"
  by (rule run_pass_silent[OF assms])

theorem steady_state_is_silent_witness:
  "run_pass quick_num log_nx [(''a'', replicate 20 3), (''b'', replicate 20 5)]
     \<lparr>ebpf_edges = [], psi_copressure = [], shared_relation = [{''a'', ''b''}], same_node = []\<rparr>
     [''a''] [] 0 [(''a'', replicate 20 1)] None 0 =
   Ret \<lparr>g_findings = [], g_edges = [], g_ranking = [], g_blast = [],
        g_meta = \<lparr>m_pods = 2, m_active = 0, m_edges = 0\<rparr>\<rparr>"
proof -
  have flat: "strong_onsets quick_num (replicate 20 c) = []" for c
    by (simp only: strong_onsets_def cusum_onsets_flat filter.simps)
  have "\<forall>(p, vec) \<in> set [(''a'', replicate 20 3), (''b'', replicate 20 5)].
      strong_onsets quick_num vec = [] \<or> in_band quick_num None 0 p vec"
    using flat[of 3] flat[of 5] by simp
  from steady_state_is_silent[OF log_nx_laws this, of "[(''a'', replicate 20 1)]"] show ?thesis by simp
qed



text \<open>C7. A source edge blames a real aggressor: its writer has an onset of its own on the write signal,
  that starts no more than ten seconds after the finding it points at, and it writes more than that
  victim does inside the analysed slice.\<close>

theorem source_edge_blames_the_writer:
  fixes np bl recent vectors w
  defines "center \<equiv> event_center w (raw_onsets np bl recent vectors)"
  assumes "run_pass np nx vectors w slo caps window wvs bl recent = Ret g" and "e \<in> set (g_edges g)"
    and "Write \<in> set (e_evidence e)" and "distinct (keys vectors)"
  shows "\<exists>f tw act. f \<in> set (g_findings g) \<and> f_pod f = e_dst e \<and>
    map_of (write_onsets np center wvs) (e_src e) = Some tw \<and> tw \<le> f_onset_s f + TEMPORAL_TOL_S \<and>
    write_activity np (event_slice window center vectors wvs) = Ret act \<and>
    dict_get act (e_dst e) 0 < dict_get act (e_src e) 0"
proof -
  define raw where "raw = raw_onsets np bl recent vectors"
  note g = run_pass_RetD[OF assms(2), folded raw_def, folded center_def[folded raw_def]]
  have not_psi: False if "psi_edge np cvec w os active (a, b) = Ret (Some e)" for cvec os active a b
    using psi_edge_SomeD(3)[OF that] accept_edge_SomeD(9) assms(4) by (auto simp: gate_admits_def split: prod.splits)
  from pass_edges_mem[OF g(1) assms(3)] not_psi obtain act p v where
    act: "write_activity np (event_slice window center vectors wvs) = Ret act"
    and e: "source_edge np (event_slice window center vectors vectors) (event_slice window center vectors wvs) w
       (onset_times center raw) (write_onsets np center wvs) act (set (keys raw)) (p, v) = Ret (Some e)"
    by blast
  note s = source_edge_SomeD[OF e, unfolded g(3)]
  from s(3) obtain f where f: "f \<in> set (g_findings g)" "f_pod f = v" by auto
  have "map_of (onset_times center raw) v = Some (f_onset_s f)"
    using f finding_onset[of f np vectors caps center raw] raw_onsets_distinct[OF assms(5)] by (simp add: g(2) raw_def)
  moreover obtain tw where "map_of (write_onsets np center wvs) p = Some tw"
    using s(1) by (metis map_of_eq_None_iff not_None_eq)
  moreover obtain x where "writer_admits w (write_onsets np center wvs) (onset_times center raw) x p v e" using s(7) ..
  ultimately have "tw \<le> f_onset_s f + TEMPORAL_TOL_S" using writer_rule.order by blast
  then show ?thesis
    using f s(4-6) act \<open>map_of (write_onsets np center wvs) p = Some tw\<close>
    by (intro exI[of _ f] exI[of _ tw] exI[of _ act]) simp
qed

theorem source_edge_blames_the_writer_witness:
  "\<exists>f tw. f \<in> set (g_findings writer_graph) \<and> f_pod f = ''a'' \<and> tw \<le> f_onset_s f + TEMPORAL_TOL_S"
  using source_edge_blames_the_writer[OF writer_pass, of writer_edge_found]
  by (simp add: writer_graph_def writer_edge_found_def) blast

text \<open>One direction per pair: a pass never reports two edges between the same two pods.\<close>

theorem one_edge_per_pair:
  assumes "run_pass np nx vectors w slo caps window wvs bl recent = Ret g" and "distinct (keys vectors)"
  shows "distinct (List.map (\<lambda>e. {e_src e, e_dst e}) (g_edges g))"
proof (cases "wvs = []")
  case True
  then show ?thesis
    using run_pass_RetD(1)[OF assms(1)] assms(2) psi_edges_pairs_distinct
    by (auto simp: pass_edges_def outcome_simps)
next
  case False
  then have "\<exists>es. dedup es = g_edges g"
    using run_pass_RetD(1)[OF assms(1)] by (auto simp: pass_edges_def outcome_simps)
  then show ?thesis using dedup_pairs by metis
qed

theorem one_edge_per_pair_witness: "distinct (List.map (\<lambda>e. {e_src e, e_dst e}) (g_edges writer_graph))"
  using one_edge_per_pair[OF writer_pass] by simp

text \<open>The deduplication keeps the preferred direction: it only keeps candidates, every candidate
  pair survives, and the edge that survives is preferred to every candidate on that pair, so that a
  write-evidenced edge always beats a psi edge and a stronger correlation a weaker one.\<close>

theorem dedup_prefers_the_source:
  "set (dedup es) \<subseteq> set es \<and>
   (\<forall>e \<in> set es. \<exists>e' \<in> set (dedup es). {e_src e', e_dst e'} = {e_src e, e_dst e} \<and> edge_pref e \<le> edge_pref e' \<and>
      (Write \<in> set (e_evidence e) \<longrightarrow> Write \<in> set (e_evidence e')))"
proof -
  have "Write \<in> set (e_evidence e) \<Longrightarrow> edge_pref e \<le> edge_pref e' \<Longrightarrow> Write \<in> set (e_evidence e')" for e e' :: edge
    by (auto simp: edge_pref_def less_eq_prod_def split: if_splits)
  then show ?thesis
    using dedup_subset dedup_best by (intro conjI ballI) (simp, meson)
qed

theorem dedup_prefers_the_source_witness:
  "\<exists>e' \<in> set (dedup [writer_edge_found\<lparr>e_evidence := [Stat]\<rparr>, writer_edge_found]).
     {e_src e', e_dst e'} = {e_src writer_edge_found, e_dst writer_edge_found} \<and> Write \<in> set (e_evidence e')"
proof -
  have "Write \<in> set (e_evidence writer_edge_found)" by (simp add: writer_edge_found_def)
  then show ?thesis
    using dedup_prefers_the_source[of "[writer_edge_found\<lparr>e_evidence := [Stat]\<rparr>, writer_edge_found]"]
    by (meson list.set_intros)
qed

text \<open>C11. On time-aligned vectors the pass always returns: with one vector length for all pods and
  writers, correlations in \<open>[-1, 1]\<close> and a graph that is a graph, no input makes it raise or loop.\<close>

theorem run_pass_total:
  assumes "digraph_laws nx" "corr_bounded np" "0 < n" "sized n vectors" "sized n wvs"
  shows "\<exists>g. run_pass np nx vectors w slo caps window wvs bl recent = Ret g"
  using run_pass_returns[OF assms] by blast

theorem run_pass_total_witness:
  "\<exists>g. run_pass quick_num log_nx [(''a'', [0, 1]), (''b'', [2, 3])] writer_disk [] [] 36 [(''a'', [5, 5])] (Some []) 24 = Ret g"
  by (rule run_pass_total[OF log_nx_laws quick_num_corr_bounded, of 2]) (simp_all add: sized_def)

text \<open>C23. A finding is a deviation: one per pod, in onset order, each from an onset of at least three
  sigma of that pod's own vector, with a severity between \<open>0.3\<close> and \<open>1\<close>; and with learned baselines the
  pod's threshold exists and its recent 90th percentile exceeds it, so a pod that is still being
  learned or that has calmed down is never a finding.\<close>

theorem findings_are_deviations:
  assumes "run_pass np nx vectors w slo caps window wvs bl recent = Ret g" and "distinct (keys vectors)"
  shows "sorted_wrt (\<lambda>f f'. f_onset_s f \<le> f_onset_s f') (g_findings g) \<and> distinct (List.map f_pod (g_findings g)) \<and>
    (\<forall>f \<in> set (g_findings g). \<exists>vec o1. (f_pod f, vec) \<in> set vectors \<and> o1 \<in> set (cusum_onsets np vec) \<and>
       3 \<le> \<bar>o_zpeak o1\<bar> \<and> f_onset_s f = of_nat (o_idx o1) * DT_S \<and> 3 / 10 \<le> f_severity f \<and> f_severity f \<le> 1 \<and>
       (\<forall>b. bl = Some b \<longrightarrow> (\<exists>thr. dict_get b (f_pod f) None = Some thr \<and>
          thr < np_percentile np (py_tail recent vec) 90)))"
proof -
  define raw where "raw = raw_onsets np bl recent vectors"
  define c where "c = event_center w raw"
  note g = run_pass_RetD[OF assms(1), folded raw_def, folded c_def]
  have "mset (List.map f_pod (g_findings g)) = mset (keys raw)"
    unfolding g(2) findings_of_pods[of np vectors caps c raw, symmetric] by simp
  then have "distinct (List.map f_pod (g_findings g))"
    using raw_onsets_distinct[OF assms(2), of np bl recent] mset_eq_imp_distinct_iff unfolding raw_def by blast
  moreover have "sorted_wrt (\<lambda>f f'. f_onset_s f \<le> f_onset_s f') (g_findings g)"
    unfolding g(2) by (rule sort_key_sorted_wrt)
  moreover have "\<exists>vec o1. (f_pod f, vec) \<in> set vectors \<and> o1 \<in> set (cusum_onsets np vec) \<and>
       3 \<le> \<bar>o_zpeak o1\<bar> \<and> f_onset_s f = of_nat (o_idx o1) * DT_S \<and> 3 / 10 \<le> f_severity f \<and> f_severity f \<le> 1 \<and>
       (\<forall>b. bl = Some b \<longrightarrow> (\<exists>thr. dict_get b (f_pod f) None = Some thr \<and>
          thr < np_percentile np (py_tail recent vec) 90))"
    if "f \<in> set (g_findings g)" for f
  proof -
    from that obtain p ons where p: "(p, ons) \<in> set raw" "f_pod f = p"
      "f_onset_s f = of_nat (o_idx (event_onset c ons)) * DT_S" "f_severity f = min (\<bar>o_zpeak (event_onset c ons)\<bar> / 10) 1"
      by (auto simp: g(2) findings_of_def Let_def)
    from p(1) obtain vec where vec: "(p, vec) \<in> set vectors" "ons = strong_onsets np vec" "ons \<noteq> []" "\<not> in_band np bl recent p vec"
      unfolding raw_def raw_onsets_mem by blast
    have "event_onset c ons \<in> set (strong_onsets np vec)" using event_onset_mem[OF vec(3), of c] vec(2) by simp
    then have "event_onset c ons \<in> set (cusum_onsets np vec)" "3 \<le> \<bar>o_zpeak (event_onset c ons)\<bar>"
      by (simp_all add: strong_onsets_def)
    moreover have "\<exists>thr. dict_get b p None = Some thr \<and> thr < np_percentile np (py_tail recent vec) 90" if "bl = Some b" for b
      using vec(4) that by (auto simp: in_band_def not_le split: option.splits)
    ultimately show ?thesis using p(2-4) vec(1) by (intro exI[of _ vec] exI[of _ "event_onset c ons"]) auto
  qed
  ultimately show ?thesis by simp
qed

theorem findings_are_deviations_witness:
  "\<exists>vec o1. (''a'', vec) \<in> {(''a'', replicate 13 0 @ [9, 9, 9, 9]), (''b'', replicate 17 1)} \<and>
     o1 \<in> set (cusum_onsets steady_num vec) \<and> 3 \<le> \<bar>o_zpeak o1\<bar>"
  using findings_are_deviations[OF writer_pass] by (simp add: writer_graph_def) blast

end
