(* ===== verification/Case_Library.thy ===== *)
theory Case_Library
  imports Edge_Memory Pipeline
begin

text \<open>
  The case library of \<open>src/correlation/engine/state.py\<close>: the similarity of a live incident with the
  stored cases and \<open>_promote_case\<close>, which folds an incident into a case, adds a variant to a family or
  opens a new one. The JSON columns hold the values themselves. The identity of a new case is a digest
  of its key: \<open>digest\<close> is a parameter (SHA-1 in the code), with the absence of collisions a hypothesis
  where it matters.
\<close>

definition SOURCE_EVIDENCE :: "ev list" where "SOURCE_EVIDENCE = [Write]"

definition jaccard :: "'a set \<Rightarrow> 'a set \<Rightarrow> real" where
  "jaccard a b = (if a = {} \<and> b = {} then 1 else of_nat (card (a \<inter> b)) / of_nat (card (a \<union> b)))"

text \<open>The fingerprint of an incident, which is also the key its identity is computed from.\<close>

record fingerprint =
  fp_stressors :: "workload list"
  fp_victims :: "workload list"
  fp_signal :: string
  fp_kind :: "ev option"
  fp_motif :: "(workload \<times> workload) list"

record crow =
  cr_fp :: fingerprint
  cr_lags :: "(string, nat) dict"
  cr_occurrences :: nat
  cr_first :: real
  cr_last :: real
  cr_lead :: "real option"
  cr_family :: "string option"

type_synonym ctable = "(string, crow) table"

record observation =
  ob_ts :: real
  ob_case :: string
  ob_root :: workload
  ob_victims :: "workload list"
  ob_graph :: graph

datatype register = Recurrence | Variant | Novel

record case_verdict =
  cv_case :: string
  cv_family :: string
  cv_register :: register
  cv_sim :: real

section \<open>Similarity\<close>

definition case_sim :: "fingerprint \<Rightarrow> crow \<Rightarrow> real" where
  "case_sim fp row =
     (let c = cr_fp row in
      if fp_signal fp \<noteq> fp_signal c \<or> fp_kind fp \<noteq> fp_kind c then 0
      else 0.40 * jaccard (set (fp_victims fp)) (set (fp_victims c))
         + 0.20 * jaccard (set (fp_stressors fp)) (set (fp_stressors c))
         + 0.40 * jaccard (set (fp_motif fp)) (set (fp_motif c)))"

definition nearest_step :: "fingerprint \<Rightarrow> string \<times> crow \<Rightarrow> (string \<times> crow) option \<times> real \<Rightarrow> (string \<times> crow) option \<times> real" where
  "nearest_step fp c best = (let s = case_sim fp (snd c) in if s > snd best then (Some c, s) else best)"

definition nearest_case :: "fingerprint \<Rightarrow> ctable \<Rightarrow> (string \<times> crow) option \<times> real" where
  "nearest_case fp t = fold (nearest_step fp) t (None, 0)"

section \<open>What an incident looks like\<close>

definition dominant_witness :: "edge list \<Rightarrow> ev option" where
  "dominant_witness edges =
     (let tags = filter (\<lambda>k. k \<notin> {Stat, Temporal, Write}) (concat (List.map e_evidence edges));
          counts = fold (\<lambda>k d. AList.update k (dict_get d k 0 + 1) d) tags []
      in case sort_key (\<lambda>kv. (- int (snd kv), fst kv)) (counts :: (ev, nat) dict) of [] \<Rightarrow> None | kv # _ \<Rightarrow> Some (fst kv))"

definition mean :: "real list \<Rightarrow> real" where
  "mean xs = sum_list xs / of_nat (length xs)"

definition lead_time :: "victim list \<Rightarrow> edge list \<Rightarrow> real option" where
  "lead_time blast edges =
     (let etas = List.map (\<lambda>b. of_nat (v_eta b)) blast;
          lags = List.map (\<lambda>e. of_nat (e_lag e)) (filter (\<lambda>e. e_lag e > 0) edges)
      in if etas \<noteq> [] then Some (mean etas) else if lags \<noteq> [] then Some (mean lags) else None)"

definition source_rooted :: "workload \<Rightarrow> edge list \<Rightarrow> bool" where
  "source_rooted rt edges =
     list_ex (\<lambda>e. stable_workload (e_src e) = rt \<and> list_ex (\<lambda>k. k \<in> set SOURCE_EVIDENCE) (e_evidence e)) edges"

definition victims_for :: "workload \<Rightarrow> graph \<Rightarrow> workload list" where
  "victims_for rt g =
     (let vs = sorted_list_of_set (set (filter (\<lambda>v. v \<noteq> rt) (List.map stable_workload (filter (\<lambda>p. p \<noteq> []) (List.map v_pod (g_blast g))))))
      in if vs \<noteq> [] then vs
         else sorted_list_of_set (set (filter (\<lambda>v. v \<noteq> rt) (List.map (\<lambda>e. stable_workload (e_dst e)) (g_edges g)))))"

definition motif_of :: "edge list \<Rightarrow> (workload \<times> workload) list" where
  "motif_of edges = sort (List.map (\<lambda>e. (stable_workload (e_src e), stable_workload (e_dst e))) edges)"

definition lag_structure_of :: "edge list \<Rightarrow> (string, nat) dict" where
  "lag_structure_of edges =
     dict_of (List.map (\<lambda>e. (stable_workload (e_src e) @ ''->'' @ stable_workload (e_dst e), e_lag e)) edges)"

text \<open>The root and the fingerprint of an incident that may become a case.\<close>

definition incident_of :: "config \<Rightarrow> graph \<Rightarrow> (workload \<times> fingerprint) option" where
  "incident_of cfg g =
     (case g_ranking g of
        [] \<Rightarrow> None
      | r # _ \<Rightarrow>
          (let rt = stable_workload (rc_pod r); vs = victims_for rt g
           in if g_edges g = [] \<or> \<not> source_rooted rt (g_edges g) \<or> vs = [] then None
              else Some (rt, \<lparr>fp_stressors = [rt], fp_victims = vs, fp_signal = c_signal cfg,
                              fp_kind = dominant_witness (g_edges g), fp_motif = motif_of (g_edges g)\<rparr>)))"

text \<open>No stored case has the digest of this incident without being this incident.\<close>

definition no_collision :: "(fingerprint \<Rightarrow> string) \<Rightarrow> config \<Rightarrow> graph \<Rightarrow> ctable \<Rightarrow> bool" where
  "no_collision digest cfg g t \<longleftrightarrow>
     (\<forall>rt fp. incident_of cfg g = Some (rt, fp) \<longrightarrow> (\<forall>(cid, row) \<in> set t. cid = digest fp \<longrightarrow> cr_fp row = fp))"

section \<open>Promotion\<close>

definition merged_lead :: "real option \<Rightarrow> crow \<Rightarrow> real option" where
  "merged_lead lead row =
     (case (lead, cr_lead row) of
        (Some l, Some old) \<Rightarrow> Some ((old * of_nat (cr_occurrences row) + l) / of_nat (cr_occurrences row + 1))
      | (None, old) \<Rightarrow> old
      | (Some l, None) \<Rightarrow> Some l)"

definition family_of :: "string \<times> crow \<Rightarrow> string" where
  "family_of c = (case cr_family (snd c) of None \<Rightarrow> fst c | Some f \<Rightarrow> if f = [] then fst c else f)"

definition promote_case ::
  "(fingerprint \<Rightarrow> string) \<Rightarrow> config \<Rightarrow> graph \<Rightarrow> real \<Rightarrow> ctable \<times> observation list \<Rightarrow>
   case_verdict option \<times> ctable \<times> observation list" where
  "promote_case digest cfg g ts lib =
     (case incident_of cfg g of
        None \<Rightarrow> (None, lib)
      | Some (rt, fp) \<Rightarrow>
         (let t = fst lib;
              near = nearest_case fp t;
              lead = lead_time (g_blast g) (g_edges g);
              observe = (\<lambda>cid. snd lib @ [\<lparr>ob_ts = ts, ob_case = cid, ob_root = rt, ob_victims = fp_victims fp, ob_graph = g\<rparr>]);
              open = (\<lambda>reg fam.
                (Some \<lparr>cv_case = digest fp, cv_family = fam, cv_register = reg, cv_sim = py_round 3 (snd near)\<rparr>,
                 row_insert_ignore t (digest fp)
                   \<lparr>cr_fp = fp, cr_lags = lag_structure_of (g_edges g), cr_occurrences = 1, cr_first = ts, cr_last = ts,
                    cr_lead = lead, cr_family = Some fam\<rparr>,
                 observe (digest fp)))
          in case fst near of
               Some (cid, row) \<Rightarrow>
                 (if snd near \<ge> c_tau_merge cfg then
                    (Some \<lparr>cv_case = cid, cv_family = family_of (cid, row), cv_register = Recurrence, cv_sim = py_round 3 (snd near)\<rparr>,
                     row_put t cid (row\<lparr>cr_occurrences := cr_occurrences row + 1, cr_last := ts, cr_lead := merged_lead lead row\<rparr>),
                     observe cid)
                  else if snd near \<ge> c_tau_family cfg then open Variant (family_of (cid, row))
                  else open Novel (digest fp))
             | None \<Rightarrow> open Novel (digest fp)))"

section \<open>Lemmas: similarity\<close>

lemma jaccard_bounds: "finite a \<Longrightarrow> finite b \<Longrightarrow> 0 \<le> jaccard a b \<and> jaccard a b \<le> 1"
proof (cases "a = {} \<and> b = {}")
  case False
  moreover assume "finite a" "finite b"
  ultimately have "0 < card (a \<union> b)" "card (a \<inter> b) \<le> card (a \<union> b)"
    by (auto simp: card_gt_0_iff intro: card_mono)
  with False show ?thesis by (simp add: jaccard_def)
qed (simp add: jaccard_def)

lemma jaccard_self [simp]: "finite a \<Longrightarrow> jaccard a a = 1"
  by (simp add: jaccard_def)

lemma jaccard_commute: "jaccard a b = jaccard b a"
  by (simp add: jaccard_def Int_commute Un_commute conj_commute)

lemma case_sim_bounds: "0 \<le> case_sim fp row \<and> case_sim fp row \<le> 1"
proof -
  let ?c = "cr_fp row"
  have "0 \<le> jaccard (set (fp_victims fp)) (set (fp_victims ?c)) \<and> jaccard (set (fp_victims fp)) (set (fp_victims ?c)) \<le> 1"
    "0 \<le> jaccard (set (fp_stressors fp)) (set (fp_stressors ?c)) \<and> jaccard (set (fp_stressors fp)) (set (fp_stressors ?c)) \<le> 1"
    "0 \<le> jaccard (set (fp_motif fp)) (set (fp_motif ?c)) \<and> jaccard (set (fp_motif fp)) (set (fp_motif ?c)) \<le> 1"
    by (simp_all add: jaccard_bounds)
  then show ?thesis by (auto simp: case_sim_def Let_def)
qed

lemma case_sim_self: "cr_fp row = fp \<Longrightarrow> case_sim fp row = 1"
  by (simp add: case_sim_def)

lemma nearest_step_ge:
  "snd best \<le> snd (nearest_step fp c best)" "case_sim fp (snd c) \<le> snd (nearest_step fp c best)"
  by (simp_all add: nearest_step_def Let_def)

lemma nearest_fold_mono: "snd best \<le> snd (fold (nearest_step fp) t best)"
proof (induction t arbitrary: best)
  case (Cons c t)
  show ?case using order_trans[OF nearest_step_ge(1) Cons.IH] by simp
qed simp

lemma nearest_fold_ge:
  "c \<in> set t \<Longrightarrow> case_sim fp (snd c) \<le> snd (fold (nearest_step fp) t best)"
proof (induction t arbitrary: best)
  case (Cons c' t)
  show ?case
  proof (cases "c = c'")
    case True
    then show ?thesis using order_trans[OF nearest_step_ge(2) nearest_fold_mono] by simp
  next
    case False
    with Cons show ?thesis by simp
  qed
qed simp

definition holds_case :: "fingerprint \<Rightarrow> (string \<times> crow) set \<Rightarrow> (string \<times> crow) option \<times> real \<Rightarrow> bool" where
  "holds_case fp T best \<longleftrightarrow> (\<forall>c. fst best = Some c \<longrightarrow> c \<in> T \<and> snd best = case_sim fp (snd c))"

lemma nearest_fold_holds:
  "holds_case fp T best \<Longrightarrow> set t \<subseteq> T \<Longrightarrow> holds_case fp T (fold (nearest_step fp) t best)"
proof (induction t arbitrary: best)
  case (Cons c t)
  have "holds_case fp T (nearest_step fp c best)"
    using Cons.prems by (auto simp: holds_case_def nearest_step_def Let_def)
  with Cons show ?case by simp
qed simp

lemma nearest_fold_none:
  "fst (fold (nearest_step fp) t best) = None \<Longrightarrow> fst best = None \<and> snd (fold (nearest_step fp) t best) = snd best"
proof (induction t arbitrary: best)
  case (Cons c' t)
  from Cons.IH[of "nearest_step fp c' best"] Cons.prems show ?case
    by (auto simp: nearest_step_def Let_def split: if_splits)
qed simp

lemma nearest_case_SomeD:
  "fst (nearest_case fp t) = Some c \<Longrightarrow> c \<in> set t \<and> snd (nearest_case fp t) = case_sim fp (snd c)"
  using nearest_fold_holds[of fp "set t" "(None, 0)" t] by (simp add: holds_case_def nearest_case_def)

lemma nearest_case_best: "c \<in> set t \<Longrightarrow> case_sim fp (snd c) \<le> snd (nearest_case fp t)"
  by (simp add: nearest_case_def nearest_fold_ge)

lemma nearest_case_found: "c \<in> set t \<Longrightarrow> 0 < case_sim fp (snd c) \<Longrightarrow> \<exists>c'. fst (nearest_case fp t) = Some c'"
  using nearest_case_best[of c t fp] nearest_fold_none[of fp t "(None, 0)"]
  by (cases "fst (nearest_case fp t)") (auto simp: nearest_case_def)

section \<open>Lemmas: promotion\<close>

lemma incident_of_SomeD:
  assumes "incident_of cfg g = Some (rt, fp)"
  shows "\<exists>r rs. g_ranking g = r # rs \<and> rt = stable_workload (rc_pod r)" "source_rooted rt (g_edges g)"
    "fp_stressors fp = [rt]" "fp_victims fp = victims_for rt g" "fp_victims fp \<noteq> []" "rt \<notin> set (fp_victims fp)"
    "fp_signal fp = c_signal cfg" "fp_motif fp = motif_of (g_edges g)"
  using assms by (auto simp: incident_of_def victims_for_def Let_def split: list.splits if_splits)

text \<open>The two shapes a promotion can take: fold into a case that is similar enough, or open one.\<close>

lemma promote_cases:
  assumes "incident_of cfg g = Some (rt, fp)"
  obtains (recurs) cid row where "(cid, row) \<in> set (fst lib)" "c_tau_merge cfg \<le> case_sim fp row"
    "snd (nearest_case fp (fst lib)) = case_sim fp row"
    "promote_case digest cfg g ts lib =
       (Some \<lparr>cv_case = cid, cv_family = family_of (cid, row), cv_register = Recurrence, cv_sim = py_round 3 (case_sim fp row)\<rparr>,
        row_put (fst lib) cid (row\<lparr>cr_occurrences := cr_occurrences row + 1, cr_last := ts,
          cr_lead := merged_lead (lead_time (g_blast g) (g_edges g)) row\<rparr>),
        snd lib @ [\<lparr>ob_ts = ts, ob_case = cid, ob_root = rt, ob_victims = fp_victims fp, ob_graph = g\<rparr>])"
  | (opens) reg fam where "reg \<noteq> Recurrence" "fam = digest fp \<or> (\<exists>c \<in> set (fst lib). fam = family_of c)"
    "fst (nearest_case fp (fst lib)) = None \<or> snd (nearest_case fp (fst lib)) < c_tau_merge cfg"
    "promote_case digest cfg g ts lib =
       (Some \<lparr>cv_case = digest fp, cv_family = fam, cv_register = reg, cv_sim = py_round 3 (snd (nearest_case fp (fst lib)))\<rparr>,
        row_insert_ignore (fst lib) (digest fp)
          \<lparr>cr_fp = fp, cr_lags = lag_structure_of (g_edges g), cr_occurrences = 1, cr_first = ts, cr_last = ts,
           cr_lead = lead_time (g_blast g) (g_edges g), cr_family = Some fam\<rparr>,
        snd lib @ [\<lparr>ob_ts = ts, ob_case = digest fp, ob_root = rt, ob_victims = fp_victims fp, ob_graph = g\<rparr>])"
proof (cases "fst (nearest_case fp (fst lib))")
  case None
  show ?thesis by (rule opens[of Novel "digest fp"]) (simp_all add: promote_case_def assms None Let_def)
next
  case (Some c)
  obtain cid row where c: "c = (cid, row)" by (cases c)
  note near = nearest_case_SomeD[OF Some]
  consider "c_tau_merge cfg \<le> snd (nearest_case fp (fst lib))"
    | "\<not> c_tau_merge cfg \<le> snd (nearest_case fp (fst lib))" "c_tau_family cfg \<le> snd (nearest_case fp (fst lib))"
    | "\<not> c_tau_merge cfg \<le> snd (nearest_case fp (fst lib))" "\<not> c_tau_family cfg \<le> snd (nearest_case fp (fst lib))"
    by blast
  then show ?thesis
  proof cases
    case 1
    show ?thesis
      by (rule recurs[of cid row]) (use near 1 c in \<open>simp_all add: promote_case_def assms Some Let_def\<close>)
  next
    case 2
    show ?thesis
      by (rule opens[of Variant "family_of c"]) (use near 2 c in \<open>auto simp: promote_case_def assms Some Let_def\<close>)
  next
    case 3
    show ?thesis
      by (rule opens[of Novel "digest fp"]) (use 3 c in \<open>simp_all add: promote_case_def assms Some Let_def\<close>)
  qed
qed

section \<open>Histories of the library\<close>

inductive lib_reach :: "(fingerprint \<Rightarrow> string) \<Rightarrow> config \<Rightarrow> ctable \<times> observation list \<Rightarrow> bool" for digest cfg where
  created: "lib_reach digest cfg ([], [])"
| promoted: "lib_reach digest cfg lib \<Longrightarrow> no_collision digest cfg g (fst lib) \<Longrightarrow>
    lib_reach digest cfg (snd (promote_case digest cfg g ts lib))"

definition total_occurrences :: "ctable \<Rightarrow> nat" where
  "total_occurrences t = sum_list (List.map (\<lambda>c. cr_occurrences (snd c)) t)"

definition lib_ok :: "ctable \<times> observation list \<Rightarrow> bool" where
  "lib_ok lib \<longleftrightarrow> distinct (keys (fst lib)) \<and> total_occurrences (fst lib) = length (snd lib) \<and>
     (\<forall>c \<in> set (fst lib). 1 \<le> cr_occurrences (snd c) \<and> family_of c \<in> fst ` set (fst lib)) \<and>
     (\<forall>ob \<in> set (snd lib). ob_case ob \<in> fst ` set (fst lib))"

lemma total_row_set:
  "distinct (keys t) \<Longrightarrow> (k, r) \<in> set t \<Longrightarrow>
   total_occurrences (row_set t k r') + cr_occurrences r = total_occurrences t + cr_occurrences r'"
proof (induction t)
  case (Cons c t)
  obtain k' x where c: "c = (k', x)" by (cases c)
  show ?case
  proof (cases "k' = k")
    case True
    then have "k \<notin> fst ` set t" using Cons.prems by (simp add: c)
    then have "row_set t k r' = t" by (induction t) (auto simp: row_set_def)
    moreover have "x = r" using Cons.prems True \<open>k \<notin> fst ` set t\<close> by (force simp: c)
    ultimately show ?thesis using True by (simp add: row_set_def total_occurrences_def c)
  next
    case False
    with Cons have "total_occurrences (row_set t k r') + cr_occurrences r = total_occurrences t + cr_occurrences r'"
      by (simp add: c)
    then show ?thesis using False by (simp add: row_set_def total_occurrences_def c)
  qed
qed simp

lemma row_put_present: "(k, r) \<in> set t \<Longrightarrow> row_put t k r' = row_set t k r'"
  by (force simp: row_put_def map_of_eq_None_iff split: option.split)

lemma row_set_mem: "c \<in> set (row_set t k r) \<Longrightarrow> (fst c = k \<and> snd c = r) \<or> c \<in> set t"
  by (auto simp: row_set_def split: if_splits)

lemma opens_fresh:
  assumes "no_collision digest cfg g t" "incident_of cfg g = Some (rt, fp)" "c_tau_merge cfg \<le> 1"
    and "fst (nearest_case fp t) = None \<or> snd (nearest_case fp t) < c_tau_merge cfg"
  shows "digest fp \<notin> fst ` set t"
proof
  assume "digest fp \<in> fst ` set t"
  then obtain row where row: "(digest fp, row) \<in> set t" by auto
  with assms(1,2) have "case_sim fp row = 1" by (intro case_sim_self) (auto simp: no_collision_def)
  with nearest_case_best[OF row, of fp] nearest_case_found[OF row, of fp] assms(3,4) show False by auto
qed

lemma promote_case_ok:
  assumes ok: "lib_ok lib" and coll: "no_collision digest cfg g (fst lib)" and tau: "c_tau_merge cfg \<le> 1"
  shows "lib_ok (snd (promote_case digest cfg g ts lib))"
proof (cases "incident_of cfg g")
  case None
  then show ?thesis using ok by (simp add: promote_case_def)
next
  case (Some inc)
  obtain rt fp where inc: "incident_of cfg g = Some (rt, fp)" using Some by (cases inc) auto
  from inc show ?thesis
  proof (cases rule: promote_cases[where digest = digest and ts = ts and lib = lib])
    case (recurs cid row)
    let ?r = "row\<lparr>cr_occurrences := cr_occurrences row + 1, cr_last := ts,
          cr_lead := merged_lead (lead_time (g_blast g) (g_edges g)) row\<rparr>"
    have put: "row_put (fst lib) cid ?r = row_set (fst lib) cid ?r" by (rule row_put_present[OF recurs(1)])
    have keys: "fst ` set (row_set (fst lib) cid ?r) = fst ` set (fst lib)"
      using keys_row_set[of "fst lib" cid ?r] by (metis set_map)
    have "total_occurrences (row_set (fst lib) cid ?r) = total_occurrences (fst lib) + 1"
      using total_row_set[OF _ recurs(1), of ?r] ok by (simp add: lib_ok_def)
    moreover have "1 \<le> cr_occurrences (snd c) \<and> family_of c \<in> fst ` set (fst lib)"
      if "c \<in> set (row_set (fst lib) cid ?r)" for c
      using row_set_mem[OF that]
    proof
      assume c: "fst c = cid \<and> snd c = ?r"
      then have "family_of c = family_of (cid, row)" by (auto simp: family_of_def split: option.split)
      with c ok recurs(1) show ?thesis by (auto simp: lib_ok_def)
    qed (use ok in \<open>auto simp: lib_ok_def\<close>)
    moreover have "cid \<in> fst ` set (fst lib)" using recurs(1) by force
    ultimately show ?thesis
      using ok unfolding recurs(4) lib_ok_def fst_conv snd_conv put keys by auto
  next
    case (opens reg fam)
    let ?r = "\<lparr>cr_fp = fp, cr_lags = lag_structure_of (g_edges g), cr_occurrences = 1, cr_first = ts, cr_last = ts,
           cr_lead = lead_time (g_blast g) (g_edges g), cr_family = Some fam\<rparr>"
    have fresh: "digest fp \<notin> fst ` set (fst lib)" by (rule opens_fresh[OF coll inc tau opens(3)])
    then have ins: "row_insert_ignore (fst lib) (digest fp) ?r = fst lib @ [(digest fp, ?r)]"
      by (simp add: row_insert_ignore_def)
    have "fam \<in> insert (digest fp) (fst ` set (fst lib))" using opens(2) ok by (auto simp: lib_ok_def)
    then have "family_of (digest fp, ?r) \<in> insert (digest fp) (fst ` set (fst lib))" by (simp add: family_of_def)
    then show ?thesis
      using ok fresh unfolding opens(4) ins lib_ok_def total_occurrences_def by auto
  qed
qed

lemma lib_reach_ok: "c_tau_merge cfg \<le> 1 \<Longrightarrow> lib_reach digest cfg lib \<Longrightarrow> lib_ok lib"
proof (rotate_tac, induction rule: lib_reach.induct)
  case created
  then show ?case by (simp add: lib_ok_def total_occurrences_def)
next
  case (promoted lib g ts)
  then show ?case by (simp add: promote_case_ok)
qed

section \<open>Properties\<close>

text \<open>A small incident and a digest for the witnesses: \<open>b\<close> writes, \<open>a\<close> stalls.\<close>

definition name_digest :: "fingerprint \<Rightarrow> string" where
  "name_digest fp = concat (fp_stressors fp @ fp_victims fp)"

definition writer_fp :: fingerprint where
  "writer_fp = \<lparr>fp_stressors = [''b''], fp_victims = [''a''], fp_signal = ''psi_io'', fp_kind = Some Pvc, fp_motif = [(''b'', ''a'')]\<rparr>"

lemma writer_incident: "incident_of default_config writer_graph = Some (''b'', writer_fp)"
  by code_simp

definition first_library :: "ctable \<times> observation list" where
  "first_library = snd (promote_case name_digest default_config writer_graph 7 ([], []))"

lemma first_library_keys: "fst (promote_case name_digest default_config writer_graph 7 ([], [])) =
     Some \<lparr>cv_case = ''ba'', cv_family = ''ba'', cv_register = Novel, cv_sim = 0\<rparr>"
  "keys (fst first_library) = [''ba'']"
  by code_simp+

lemma first_library_reach: "lib_reach name_digest default_config first_library"
  unfolding first_library_def by (intro lib_reach.intros) (simp add: no_collision_def)

text \<open>C13. The case library accounts for every incident exactly once: along any history, case ids are unique,
  the occurrences of all cases add up to the number of recorded observations, every observation
  belongs to a stored case, and every case belongs to a family that is itself a stored case.\<close>

theorem case_library_invariant:
  assumes "c_tau_merge cfg \<le> 1" "lib_reach digest cfg lib"
  shows "distinct (keys (fst lib)) \<and> total_occurrences (fst lib) = length (snd lib) \<and>
    (\<forall>ob \<in> set (snd lib). ob_case ob \<in> set (keys (fst lib))) \<and>
    (\<forall>c \<in> set (fst lib). 1 \<le> cr_occurrences (snd c) \<and> family_of c \<in> set (keys (fst lib)))"
  using lib_reach_ok[OF assms] by (auto simp: lib_ok_def)

theorem case_library_invariant_witness:
  "total_occurrences (fst first_library) = length (snd first_library) \<and> distinct (keys (fst first_library))"
  using case_library_invariant[OF _ first_library_reach] by (simp add: default_config_def)

text \<open>C31. Only a source-rooted verdict becomes a case: when a case is reported, the top-ranked root owns an
  outgoing edge with write evidence and is not among its own, nonempty, victims; when none is
  reported, the library is unchanged.\<close>

theorem cases_are_source_rooted:
  "case promote_case digest cfg g ts lib of
     (None, lib') \<Rightarrow> lib' = lib
   | (Some v, lib') \<Rightarrow>
       \<exists>r rs e. g_ranking g = r # rs \<and> e \<in> set (g_edges g) \<and>
         stable_workload (e_src e) = stable_workload (rc_pod r) \<and> Write \<in> set (e_evidence e) \<and>
         victims_for (stable_workload (rc_pod r)) g \<noteq> [] \<and>
         stable_workload (rc_pod r) \<notin> set (victims_for (stable_workload (rc_pod r)) g) \<and>
         length (snd lib') = length (snd lib) + 1"
proof (cases "incident_of cfg g")
  case None
  then show ?thesis by (simp add: promote_case_def)
next
  case (Some inc)
  obtain rt fp where inc: "incident_of cfg g = Some (rt, fp)" using Some by (cases inc) auto
  note i = incident_of_SomeD[OF inc]
  from i(1) obtain r rs where r: "g_ranking g = r # rs" "rt = stable_workload (rc_pod r)" by blast
  from i(2) obtain e where e: "e \<in> set (g_edges g)" "stable_workload (e_src e) = rt" "Write \<in> set (e_evidence e)"
    by (auto simp: source_rooted_def list_ex_iff SOURCE_EVIDENCE_def)
  have rooted: "\<exists>r rs e. g_ranking g = r # rs \<and> e \<in> set (g_edges g) \<and>
         stable_workload (e_src e) = stable_workload (rc_pod r) \<and> Write \<in> set (e_evidence e) \<and>
         victims_for (stable_workload (rc_pod r)) g \<noteq> [] \<and>
         stable_workload (rc_pod r) \<notin> set (victims_for (stable_workload (rc_pod r)) g)"
    using r e i(4-6) by auto
  from inc show ?thesis
    by (cases rule: promote_cases[where digest = digest and ts = ts and lib = lib]) (use rooted in auto)
qed

text \<open>An incident is recognised: whatever the library holds, promoting the same incident again, at any
  later time, is a recurrence of a stored case and opens no new one.\<close>

theorem same_incident_recurs:
  fixes ts ts' :: real
  assumes "0 < c_tau_merge cfg" "c_tau_merge cfg \<le> 1" "no_collision digest cfg g (fst lib)"
    and "incident_of cfg g \<noteq> None" "distinct (keys (fst lib))"
  defines "lib' \<equiv> snd (promote_case digest cfg g ts lib)"
  shows "\<exists>v. fst (promote_case digest cfg g ts' lib') = Some v \<and> cv_register v = Recurrence \<and>
    keys (fst (snd (promote_case digest cfg g ts' lib'))) = keys (fst lib')"
proof -
  obtain rt fp where inc: "incident_of cfg g = Some (rt, fp)" using assms(4) by auto
  have stored: "\<exists>cid row. (cid, row) \<in> set (fst lib') \<and> c_tau_merge cfg \<le> case_sim fp row"
    using inc
  proof (cases rule: promote_cases[where digest = digest and ts = ts and lib = lib])
    case (recurs cid row)
    let ?r = "row\<lparr>cr_occurrences := cr_occurrences row + 1, cr_last := ts,
          cr_lead := merged_lead (lead_time (g_blast g) (g_edges g)) row\<rparr>"
    have "(cid, ?r) \<in> set (fst lib')"
      using recurs(1) by (force simp: lib'_def recurs(4) row_put_present[OF recurs(1)] row_set_def)
    moreover have "case_sim fp ?r = case_sim fp row" by (simp add: case_sim_def)
    ultimately show ?thesis using recurs(2) by metis
  next
    case (opens reg fam)
    have "digest fp \<notin> fst ` set (fst lib)" by (rule opens_fresh[OF assms(3) inc assms(2) opens(3)])
    then obtain row where "(digest fp, row) \<in> set (fst lib')" "cr_fp row = fp"
      by (fastforce simp: lib'_def opens(4) row_insert_ignore_def)
    then show ?thesis using assms(2) case_sim_self by metis
  qed
  then obtain cid row where row: "(cid, row) \<in> set (fst lib')" "c_tau_merge cfg \<le> case_sim fp row" by blast
  have near: "c_tau_merge cfg \<le> snd (nearest_case fp (fst lib'))" "fst (nearest_case fp (fst lib')) \<noteq> None"
    using nearest_case_best[OF row(1), of fp] nearest_case_found[OF row(1), of fp] row(2) assms(1) by auto
  from inc show ?thesis
  proof (cases rule: promote_cases[where digest = digest and ts = ts' and lib = lib'])
    case (recurs cid' row')
    then show ?thesis by (simp add: row_put_present)
  next
    case opens
    with near show ?thesis by auto
  qed
qed

theorem same_incident_recurs_witness:
  "\<exists>v. fst (promote_case name_digest default_config writer_graph 9 first_library) = Some v \<and> cv_register v = Recurrence \<and>
     keys (fst (snd (promote_case name_digest default_config writer_graph 9 first_library))) = [''ba'']"
proof -
  have "0 < c_tau_merge default_config" "c_tau_merge default_config \<le> 1" by (simp_all add: default_config_def)
  from same_incident_recurs[OF this, of name_digest writer_graph "([], [])" 9 7] show ?thesis
    using first_library_keys(2) by (simp add: no_collision_def writer_incident first_library_def)
qed

text \<open>The similarity is a similarity: it lies in \<open>[0, 1]\<close>, is 1 on an incident of the stored shape, and is
  0 across signals or physical witnesses, so different couplings never merge.\<close>

theorem case_sim_is_similarity:
  "0 \<le> case_sim fp row \<and> case_sim fp row \<le> 1 \<and> (cr_fp row = fp \<longrightarrow> case_sim fp row = 1) \<and>
   (fp_signal fp \<noteq> fp_signal (cr_fp row) \<or> fp_kind fp \<noteq> fp_kind (cr_fp row) \<longrightarrow> case_sim fp row = 0)"
  using case_sim_bounds[of fp row] by (auto simp: case_sim_self) (auto simp: case_sim_def Let_def)

theorem case_sim_is_similarity_witness:
  "case_sim writer_fp (snd (hd (fst first_library))) = 1"
proof -
  have "cr_fp (snd (hd (fst first_library))) = writer_fp" by code_simp
  with case_sim_is_similarity[of writer_fp "snd (hd (fst first_library))"] show ?thesis by simp
qed

end
