(* ===== verification/Observe.thy ===== *)
theory Observe
  imports Edge_Spec Baselines Case_Library
begin

text \<open>
  The memory of one signal as a whole, \<open>GraphMemory\<close> of \<open>src/correlation/engine/state.py\<close>: the
  database, \<open>observe\<close>, \<open>_render\<close>, \<open>bootstrap_graph\<close>, \<open>stats\<close>, \<open>record_model_version\<close>, \<open>record_mistake\<close> and
  the schema migration. A rendered edge is an edge with the columns \<open>_render\<close> adds; the columns a
  live edge may lack are options.
\<close>

record model_version =
  mv_component :: string
  mv_version :: string
  mv_params :: "string \<times> real list"

record mistake =
  mk_incident :: "string option"
  mk_predicted :: string
  mk_correction :: string
  mk_open :: bool

record memory =
  mm_path :: string
  mm_schema :: "string option"
  mm_edges :: etable
  mm_lib :: "ctable \<times> observation list"
  mm_baselines :: btable
  mm_snapshots :: "(real \<times> graph) list"
  mm_versions :: "(model_version, real \<times> string) table"
  mm_mistakes :: "(real \<times> mistake \<times> string) list"

section \<open>Rendering\<close>

datatype origin = Live | Memory

record redge = edge +
  x_conf :: "real option"
  x_base :: "real option"
  x_state :: "estate option"
  x_hits :: "nat option"
  x_last_seen :: "real option"
  x_origin :: "origin option"

definition live_edge :: "config \<Rightarrow> etable \<Rightarrow> edge \<Rightarrow> redge" where
  "live_edge cfg t e =
     (case map_of t (edge_key cfg e) of
        None \<Rightarrow> edge.extend e \<lparr>x_conf = None, x_base = None, x_state = None, x_hits = None, x_last_seen = None, x_origin = None\<rparr>
      | Some row \<Rightarrow> edge.extend e \<lparr>x_conf = Some (py_round 3 (er_conf row)), x_base = None, x_state = Some (er_state row),
          x_hits = Some (er_hits row), x_last_seen = None, x_origin = Some Live\<rparr>)"

definition live_pairs :: "edge list \<Rightarrow> workload set set" where
  "live_pairs es = set (List.map (\<lambda>e. {stable_workload (e_src e), stable_workload (e_dst e)}) es)"

definition key_pair :: "ekey \<Rightarrow> workload set" where
  "key_pair k = {fst k, fst (snd k)}"

definition held_step :: "workload set set \<Rightarrow> ekey \<times> erow \<Rightarrow> (workload set, ekey \<times> erow) dict \<Rightarrow> (workload set, ekey \<times> erow) dict" where
  "held_step live kr by_pair =
     (let pr = key_pair (fst kr) in
      if pr \<in> live then by_pair
      else (case map_of by_pair pr of
              None \<Rightarrow> AList.update pr kr by_pair
            | Some kr' \<Rightarrow> (if er_conf (snd kr) > er_conf (snd kr') then AList.update pr kr by_pair else by_pair)))"

definition held_rows :: "config \<Rightarrow> workload set set \<Rightarrow> etable \<Rightarrow> (ekey \<times> erow) list" where
  "held_rows cfg live t =
     List.map snd (fold (held_step live)
       (filter (\<lambda>(k, row). snd (snd k) = c_signal cfg \<and> (er_visible row \<or> er_base row > 0)) t) [])"

definition held_edge :: "(workload, pod) dict \<Rightarrow> real \<Rightarrow> ekey \<times> erow \<Rightarrow> redge option" where
  "held_edge wl_pod now kr =
     (case (map_of wl_pod (fst (fst kr)), map_of wl_pod (fst (snd (fst kr)))) of
        (Some s, Some d) \<Rightarrow>
          (let row = snd kr in
           Some \<lparr>e_src = s, e_dst = d, e_r = py_round 3 (er_r row), e_lag = er_lag row, e_evidence = er_evidence row,
             x_conf = Some (py_round 3 (er_conf row)), x_base = Some (py_round 3 (er_base row)), x_state = Some (er_state row),
             x_hits = Some (er_hits row), x_last_seen = Some (py_round 1 (now - er_last row)), x_origin = Some Memory\<rparr>)
      | _ \<Rightarrow> None)"

definition wl_pods :: "vectors \<Rightarrow> (workload, pod) dict" where
  "wl_pods vectors = dict_of (List.map (\<lambda>(p, _). (stable_workload p, p)) vectors)"

definition held_edges :: "config \<Rightarrow> etable \<Rightarrow> vectors \<Rightarrow> real \<Rightarrow> edge list \<Rightarrow> redge list" where
  "held_edges cfg t vectors now es =
     somes (List.map (held_edge (wl_pods vectors) now) (held_rows cfg (live_pairs es) t))"

record mem_stats =
  st_db :: string
  st_edges :: nat
  st_visible :: nat
  st_cases :: nat
  st_families :: nat
  st_mistakes :: nat

record rmeta =
  rm_pods :: nat
  rm_active :: nat
  rm_accepted :: nat
  rm_held :: nat
  rm_case :: "case_verdict option"
  rm_stats :: mem_stats

record rgraph =
  rg_findings :: "finding list"
  rg_edges :: "redge list"
  rg_ranking :: "root_cause list"
  rg_blast :: "victim list"
  rg_meta :: rmeta

definition render_edges :: "config \<Rightarrow> etable \<Rightarrow> vectors \<Rightarrow> real \<Rightarrow> edge list \<Rightarrow> redge list" where
  "render_edges cfg t vectors now es = List.map (live_edge cfg t) es @ held_edges cfg t vectors now es"

text \<open>The ranking is redone over live and held edges, but only when something is an incident.\<close>

definition rerank :: "'g nxlib \<Rightarrow> graph \<Rightarrow> redge list \<Rightarrow> (root_cause list \<times> victim list) outcome" where
  "rerank nx g edges =
     (if g_findings g = [] \<or> edges = [] then Ret (g_ranking g, g_blast g)
      else
       (let gr = build_graph nx edges;
            seeds = List.map f_pod (g_findings g);
            onset_s = dict_of (List.map (\<lambda>f. (f_pod f, f_onset_s f)) (g_findings g))
        in obind (rank_root_causes nx gr seeds onset_s 3) (\<lambda>ranking.
           obind (case ranking of [] \<Rightarrow> Ret [] | r # _ \<Rightarrow> blast_radius nx gr (rc_pod r)) (\<lambda>blast.
           Ret (ranking, blast)))))"

section \<open>Statistics\<close>

definition stats :: "memory \<Rightarrow> mem_stats" where
  "stats m =
     \<lparr>st_db = mm_path m,
      st_edges = length (mm_edges m),
      st_visible = length (filter (\<lambda>kr. er_visible (snd kr)) (mm_edges m)),
      st_cases = length (fst (mm_lib m)),
      st_families = card (set (List.map (\<lambda>c. case cr_family (snd c) of None \<Rightarrow> fst c | Some f \<Rightarrow> f) (fst (mm_lib m)))),
      st_mistakes = length (filter (\<lambda>x. mk_open (fst (snd x))) (mm_mistakes m))\<rparr>"

definition render :: "'g nxlib \<Rightarrow> config \<Rightarrow> memory \<Rightarrow> graph \<Rightarrow> vectors \<Rightarrow> real \<Rightarrow> case_verdict option \<Rightarrow> rgraph outcome" where
  "render nx cfg m g vectors now verdict =
     (let edges = render_edges cfg (mm_edges m) vectors now (g_edges g)
      in obind (rerank nx g edges) (\<lambda>rb.
         Ret \<lparr>rg_findings = g_findings g, rg_edges = edges, rg_ranking = fst rb, rg_blast = snd rb,
              rg_meta = \<lparr>rm_pods = m_pods (g_meta g), rm_active = m_active (g_meta g), rm_accepted = m_edges (g_meta g),
                rm_held = length (held_edges cfg (mm_edges m) vectors now (g_edges g)), rm_case = verdict, rm_stats = stats m\<rparr>\<rparr>))"

section \<open>The operations of the memory\<close>

definition observe_memory ::
  "numlib \<Rightarrow> (fingerprint \<Rightarrow> string) \<Rightarrow> config \<Rightarrow> graph \<Rightarrow> vectors \<Rightarrow> witness option \<Rightarrow> real \<Rightarrow> memory \<Rightarrow> case_verdict option \<times> memory" where
  "observe_memory np digest cfg g vectors w ts m =
     (let bl = update_baselines np cfg vectors ts (mm_baselines m);
          present = set (List.map (\<lambda>(p, _). stable_workload p) vectors);
          es = edge_pass cfg w present ts (g_edges g) (mm_edges m);
          (verdict, lib) = promote_case digest cfg g ts (mm_lib m);
          snaps = (if g_edges g \<noteq> [] then mm_snapshots m @ [(ts, g)] else mm_snapshots m)
      in (verdict, m\<lparr>mm_edges := es, mm_lib := lib, mm_baselines := bl, mm_snapshots := snaps\<rparr>))"

definition observe ::
  "numlib \<Rightarrow> 'g nxlib \<Rightarrow> (fingerprint \<Rightarrow> string) \<Rightarrow> config \<Rightarrow> graph \<Rightarrow> vectors \<Rightarrow> witness option \<Rightarrow> real \<Rightarrow> real \<Rightarrow> memory \<Rightarrow>
   (rgraph \<times> memory) outcome" where
  "observe np nx digest cfg g vectors w ts now m =
     (case observe_memory np digest cfg g vectors w ts m of
        (verdict, m') \<Rightarrow> obind (render nx cfg m' g vectors now verdict) (\<lambda>rg. Ret (rg, m')))"

definition empty_graph :: graph where
  "empty_graph = \<lparr>g_findings = [], g_edges = [], g_ranking = [], g_blast = [], g_meta = \<lparr>m_pods = 0, m_active = 0, m_edges = 0\<rparr>\<rparr>"

definition bootstrap_graph :: "'g nxlib \<Rightarrow> config \<Rightarrow> real \<Rightarrow> memory \<Rightarrow> rgraph outcome" where
  "bootstrap_graph nx cfg now m = render nx cfg m empty_graph [] now None"

definition record_model_version :: "real \<Rightarrow> model_version \<Rightarrow> string \<Rightarrow> memory \<Rightarrow> memory" where
  "record_model_version ts mv nt m = m\<lparr>mm_versions := row_insert_ignore (mm_versions m) mv (ts, nt)\<rparr>"

definition record_mistake :: "real \<Rightarrow> string \<Rightarrow> string \<Rightarrow> string option \<Rightarrow> string \<Rightarrow> memory \<Rightarrow> memory" where
  "record_mistake ts predicted correction incident nt m =
     m\<lparr>mm_mistakes := mm_mistakes m @
       [(ts, \<lparr>mk_incident = incident, mk_predicted = predicted, mk_correction = correction, mk_open = True\<rparr>, nt)]\<rparr>"

definition SCHEMA_VERSION :: string where "SCHEMA_VERSION = ''l3-memory-v5''"

text \<open>Migration: a version-1 database loses its pod-keyed edges, every other one keeps all rows. The columns
  that later versions add have their defaults (a floor of 0, no family) when the row is read, except
  that the case family is filled in with the case's own id when its column is added, which
  \<open>has_family\<close> says is still to be done.\<close>

definition migrate :: "bool \<Rightarrow> memory \<Rightarrow> memory" where
  "migrate has_family m =
     (if mm_schema m = Some SCHEMA_VERSION then m
      else
       (let m1 = (if mm_schema m = Some ''l3-memory-v1'' then m\<lparr>mm_edges := []\<rparr> else m);
            m2 = (if has_family then m1
                  else m1\<lparr>mm_lib := (List.map (\<lambda>(cid, row). (cid, if cr_family row = None then row\<lparr>cr_family := Some cid\<rparr> else row))
                         (fst (mm_lib m1)), snd (mm_lib m1))\<rparr>)
        in m2\<lparr>mm_schema := Some SCHEMA_VERSION\<rparr>))"

definition fresh_memory :: "string \<Rightarrow> memory" where
  "fresh_memory path = \<lparr>mm_path = path, mm_schema = None, mm_edges = [], mm_lib = ([], []), mm_baselines = [],
     mm_snapshots = [], mm_versions = [], mm_mistakes = []\<rparr>"

text \<open>Opening a database: the schema is brought up to date and the model version is recorded once.\<close>

definition memory_version :: "config \<Rightarrow> model_version" where
  "memory_version cfg = \<lparr>mv_component = ''edge-memory'', mv_version = SCHEMA_VERSION,
     mv_params = (c_signal cfg, [c_alpha cfg, c_decay cfg, c_show cfg, c_hide cfg])\<rparr>"

definition open_memory :: "config \<Rightarrow> bool \<Rightarrow> real \<Rightarrow> memory \<Rightarrow> memory" where
  "open_memory cfg has_family now m =
     record_model_version now (memory_version cfg)
       ''Persistent L3 memory: edge confidence, cases, model versions, mistakes.'' (migrate has_family m)"

section \<open>Lemmas: rendering\<close>

lemma fold_held_step:
  "fold (held_step live) rows d =
   fold (keep_best (\<lambda>kr. key_pair (fst kr)) (\<lambda>kr. er_conf (snd kr))) (filter (\<lambda>kr. key_pair (fst kr) \<notin> live) rows) d"
  by (induction rows arbitrary: d) (auto simp: held_step_def keep_best_def Let_def)

definition holdable :: "config \<Rightarrow> workload set set \<Rightarrow> ekey \<times> erow \<Rightarrow> bool" where
  "holdable cfg live kr \<longleftrightarrow> key_pair (fst kr) \<notin> live \<and> snd (snd (fst kr)) = c_signal cfg \<and>
     (er_visible (snd kr) \<or> er_base (snd kr) > 0)"

lemma held_rows_kept:
  "\<exists>d. held_rows cfg live t = List.map snd d \<and>
     kept (\<lambda>kr. key_pair (fst kr)) (\<lambda>kr. er_conf (snd kr)) (filter (holdable cfg live) t) d"
proof -
  let ?rows = "filter (\<lambda>(k, row). snd (snd k) = c_signal cfg \<and> (er_visible row \<or> er_base row > 0)) t"
  have "filter (\<lambda>kr. key_pair (fst kr) \<notin> live) ?rows = filter (holdable cfg live) t"
    by (auto simp: holdable_def intro!: filter_cong)
  with kept_fold[of "\<lambda>kr. key_pair (fst kr)" "\<lambda>kr. er_conf (snd kr)" "filter (holdable cfg live) t"]
  show ?thesis unfolding held_rows_def fold_held_step by auto
qed

lemma wl_pods_get: "map_of (wl_pods vectors) wl = Some p \<Longrightarrow> p \<in> set (keys vectors) \<and> stable_workload p = wl"
  unfolding wl_pods_def by (drule dict_of_memD) force

lemma wl_pods_total: "wl \<in> stable_workload ` set (keys vectors) \<Longrightarrow> \<exists>p. map_of (wl_pods vectors) wl = Some p"
  unfolding wl_pods_def by (rule dict_of_get) force

lemma held_edge_SomeD:
  assumes "held_edge (wl_pods vectors) now kr = Some x"
  shows "e_src x \<in> set (keys vectors)" "e_dst x \<in> set (keys vectors)"
    "stable_workload (e_src x) = fst (fst kr)" "stable_workload (e_dst x) = fst (snd (fst kr))"
    "x_conf x = Some (py_round 3 (er_conf (snd kr)))" "x_origin x = Some Memory" "e_r x = py_round 3 (er_r (snd kr))"
  using assms wl_pods_get[of vectors] by (auto simp: held_edge_def Let_def split: option.splits)

lemma held_edges_mem:
  assumes "x \<in> set (held_edges cfg t vectors now es)"
  shows "\<exists>kr \<in> set t. holdable cfg (live_pairs es) kr \<and> held_edge (wl_pods vectors) now kr = Some x"
proof -
  obtain kr where kr: "kr \<in> set (held_rows cfg (live_pairs es) t)" "held_edge (wl_pods vectors) now kr = Some x"
    using assms by (auto simp: held_edges_def)
  obtain d where "held_rows cfg (live_pairs es) t = List.map snd d"
    "kept (\<lambda>kr. key_pair (fst kr)) (\<lambda>kr. er_conf (snd kr)) (filter (holdable cfg (live_pairs es)) t) d"
    using held_rows_kept by blast
  with kr(1) have "kr \<in> set (filter (holdable cfg (live_pairs es)) t)" by (auto simp: kept_def)
  with kr(2) show ?thesis by auto
qed

lemma somes_map_distinct:
  assumes "distinct (List.map f xs)" "\<And>x y. x \<in> set xs \<Longrightarrow> h x = Some y \<Longrightarrow> g y = f x"
  shows "distinct (List.map g (somes (List.map h xs))) \<and> g ` set (somes (List.map h xs)) \<subseteq> f ` set xs"
  using assms
proof (induction xs)
  case (Cons x xs)
  then have IH: "distinct (List.map g (somes (List.map h xs)))" "g ` set (somes (List.map h xs)) \<subseteq> f ` set xs" by auto
  show ?case
  proof (cases "h x")
    case None
    then show ?thesis using IH by (auto simp: somes_def)
  next
    case (Some y)
    then have "g y = f x" "f x \<notin> f ` set xs" using Cons.prems by auto
    moreover have "somes (List.map h (x # xs)) = y # somes (List.map h xs)" by (simp add: somes_def Some)
    ultimately show ?thesis using IH by (auto simp del: somes_mem)
  qed
qed (simp add: somes_def)

definition wl_pair :: "redge \<Rightarrow> workload set" where
  "wl_pair x = {stable_workload (e_src x), stable_workload (e_dst x)}"

lemma held_edges_distinct: "distinct (List.map wl_pair (held_edges cfg t vectors now es))"
proof -
  obtain d where d: "held_rows cfg (live_pairs es) t = List.map snd d"
    "kept (\<lambda>kr. key_pair (fst kr)) (\<lambda>kr. er_conf (snd kr)) (filter (holdable cfg (live_pairs es)) t) d"
    using held_rows_kept by blast
  have "distinct (List.map (\<lambda>kr. key_pair (fst kr)) (held_rows cfg (live_pairs es) t))"
    unfolding d(1) by (rule kept_distinct[OF d(2)])
  then show ?thesis
    unfolding held_edges_def
    by (rule conjunct1[OF somes_map_distinct]) (auto simp: wl_pair_def key_pair_def dest: held_edge_SomeD(3,4))
qed

lemma live_edge_truncate: "edge.truncate (live_edge cfg t e) = e"
  by (cases e) (auto simp: live_edge_def edge.defs split: option.split)

lemma live_edge_simps [simp]:
  "e_src (live_edge cfg t e) = e_src e" "e_dst (live_edge cfg t e) = e_dst e" "e_r (live_edge cfg t e) = e_r e"
  by (auto simp: live_edge_def edge.defs split: option.split)

lemma held_edges_best:
  assumes "kr \<in> set t" "holdable cfg (live_pairs es) kr" "key_pair (fst kr) \<subseteq> stable_workload ` set (keys vectors)"
  shows "\<exists>x \<in> set (held_edges cfg t vectors now es). wl_pair x = key_pair (fst kr) \<and>
    (\<exists>c. x_conf x = Some c \<and> py_round 3 (er_conf (snd kr)) \<le> c)"
proof -
  obtain d where d: "held_rows cfg (live_pairs es) t = List.map snd d"
    "kept (\<lambda>kr. key_pair (fst kr)) (\<lambda>kr. er_conf (snd kr)) (filter (holdable cfg (live_pairs es)) t) d"
    using held_rows_kept by blast
  have "kr \<in> set (filter (holdable cfg (live_pairs es)) t)" using assms(1,2) by simp
  from kept_best[OF d(2) this] obtain kr' where "kr' \<in> snd ` set d"
    and kr': "key_pair (fst kr') = key_pair (fst kr)" "er_conf (snd kr) \<le> er_conf (snd kr')" by blast
  then have mem: "kr' \<in> set (held_rows cfg (live_pairs es) t)" by (simp add: d(1))
  have "fst (fst kr') \<in> stable_workload ` set (keys vectors)" "fst (snd (fst kr')) \<in> stable_workload ` set (keys vectors)"
    using assms(3)[folded kr'(1)] by (simp_all add: key_pair_def)
  from this[THEN wl_pods_total] obtain p q where
    "map_of (wl_pods vectors) (fst (fst kr')) = Some p" "map_of (wl_pods vectors) (fst (snd (fst kr'))) = Some q" by blast
  then obtain x where x: "held_edge (wl_pods vectors) now kr' = Some x" by (simp add: held_edge_def Let_def)
  from held_edge_SomeD(3,4)[OF x] have "wl_pair x = key_pair (fst kr)"
    unfolding kr'(1)[symmetric] by (simp add: wl_pair_def key_pair_def)
  moreover have "Some x \<in> held_edge (wl_pods vectors) now ` set (held_rows cfg (live_pairs es) t)"
    using mem by (rule rev_image_eqI) (simp add: x)
  then have "x \<in> set (held_edges cfg t vectors now es)" by (simp add: held_edges_def)
  moreover have "\<exists>c. x_conf x = Some c \<and> py_round 3 (er_conf (snd kr)) \<le> c"
    using held_edge_SomeD(5)[OF x] py_round_mono[OF kr'(2)] by blast
  ultimately show ?thesis by blast
qed

lemma py_round_abs: "\<bar>r\<bar> \<le> 1 \<Longrightarrow> \<bar>py_round n r\<bar> \<le> 1"
  using py_round_le_1[of r n] py_round_ge_minus1[of r n] by (simp add: abs_le_iff)

lemma render_edges_weights:
  assumes "\<forall>e \<in> set es. \<bar>e_r e\<bar> \<le> 1" "\<forall>kr \<in> set t. \<bar>er_r (snd kr)\<bar> \<le> 1"
  shows "\<forall>x \<in> set (render_edges cfg t vectors now es). \<bar>e_r x\<bar> \<le> 1"
proof -
  have "\<bar>e_r x\<bar> \<le> 1" if "x \<in> set (held_edges cfg t vectors now es)" for x
    using held_edges_mem[OF that] held_edge_SomeD(7) py_round_abs assms(2) by metis
  then show ?thesis using assms(1) by (auto simp: render_edges_def)
qed

lemma rerank_returns:
  assumes "digraph_laws nx" "\<forall>x \<in> set edges. \<bar>e_r x\<bar> \<le> 1"
  shows "\<exists>rb. rerank nx g edges = Ret rb"
proof -
  let ?gr = "build_graph nx edges"
  obtain rs where rs: "rank_root_causes nx ?gr (List.map f_pod (g_findings g))
      (dict_of (List.map (\<lambda>f. (f_pod f, f_onset_s f)) (g_findings g))) 3 = Ret rs"
    using rank_root_causes_returns[OF assms] by blast
  have "\<exists>ds. (case rs of [] \<Rightarrow> Ret [] | r # _ \<Rightarrow> blast_radius nx ?gr (rc_pod r)) = Ret ds"
    using blast_radius_returns[OF assms(1), of edges] by (cases rs) auto
  then obtain ds where "(case rs of [] \<Rightarrow> Ret [] | r # _ \<Rightarrow> blast_radius nx ?gr (rc_pod r)) = Ret ds" ..
  with rs show ?thesis by (simp add: rerank_def Let_def)
qed

text \<open>Every edge that is rendered shows a state: a live edge has just been confirmed in the memory.\<close>

lemma confirm_rows_some: "es \<noteq> [] \<Longrightarrow> \<exists>row. fold (confirm_row cfg ts) es x = Some row"
proof (induction es rule: rev_induct)
  case (snoc e es)
  show ?case by (simp add: confirm_row_def Let_def)
qed simp

lemma observed_edge_row:
  assumes "e \<in> set (g_edges g)"
  shows "\<exists>row. map_of (mm_edges (snd (observe_memory np digest cfg g vectors w ts m))) (edge_key cfg e) = Some row"
proof -
  have "filter (\<lambda>e'. edge_key cfg e' = edge_key cfg e) (g_edges g) \<noteq> []" using assms by (auto simp: filter_empty_conv)
  then have "\<exists>row. pass_spec cfg w present ts (g_edges g) f (edge_key cfg e) = Some row" for present f
    using confirm_rows_some[of _ cfg ts] by (auto simp: pass_spec_def)
  then show ?thesis by (simp add: observe_memory_def Let_def case_prod_beta edge_pass_row)
qed

lemma held_edge_state: "held_edge d now kr = Some x \<Longrightarrow> x_state x \<noteq> None"
  by (auto simp: held_edge_def Let_def split: option.splits)

lemma render_edges_stated:
  assumes "\<And>e. e \<in> set es \<Longrightarrow> \<exists>row. map_of t (edge_key cfg e) = Some row" "x \<in> set (render_edges cfg t vectors now es)"
  shows "x_state x \<noteq> None"
proof -
  have "x_state (live_edge cfg t e) \<noteq> None" if "e \<in> set es" for e
    using assms(1)[OF that] by (auto simp: live_edge_def edge.defs)
  then show ?thesis using assms(2) held_edges_mem held_edge_state by (fastforce simp: render_edges_def)
qed

section \<open>The invariant of the memory\<close>

definition tables_ok :: "config \<Rightarrow> memory \<Rightarrow> bool" where
  "tables_ok cfg m \<longleftrightarrow> distinct (keys (mm_edges m)) \<and> all_rows (map_of (mm_edges m)) (row_ok cfg) \<and>
     (\<forall>k. corr_row (map_of (mm_edges m) k))"

definition mem_ok :: "config \<Rightarrow> memory \<Rightarrow> bool" where
  "mem_ok cfg m \<longleftrightarrow> tables_ok cfg m \<and> lib_ok (mm_lib m)"

lemma tables_ok_weights: "tables_ok cfg m \<Longrightarrow> \<forall>kr \<in> set (mm_edges m). \<bar>er_r (snd kr)\<bar> \<le> 1"
  by (force simp: tables_ok_def corr_row_def)

lemma observe_memory_tables:
  assumes "config_ok cfg" "tables_ok cfg m" "\<forall>e \<in> set (g_edges g). \<bar>e_r e\<bar> \<le> 1"
  shows "tables_ok cfg (snd (observe_memory np digest cfg g vectors w ts m))"
proof -
  let ?es = "edge_pass cfg w (set (List.map (\<lambda>(p, _). stable_workload p) vectors)) ts (g_edges g) (mm_edges m)"
  have "corr_row (map_of ?es k)" for k
  proof -
    have "corr_row (map_of (mm_edges m) k)" using assms(2) unfolding tables_ok_def by blast
    from pass_spec_corr[of "map_of (mm_edges m)", OF this assms(3)] show ?thesis unfolding edge_pass_row .
  qed
  moreover have "distinct (keys ?es)" "all_rows (map_of ?es) (row_ok cfg)"
    using edge_pass_distinct edge_pass_ok[OF assms(1)] assms(2) by (auto simp: tables_ok_def)
  ultimately show ?thesis by (simp add: observe_memory_def tables_ok_def Let_def case_prod_beta)
qed

lemma observe_memory_lib:
  assumes "c_tau_merge cfg \<le> 1" "lib_ok (mm_lib m)" "no_collision digest cfg g (fst (mm_lib m))"
  shows "lib_ok (mm_lib (snd (observe_memory np digest cfg g vectors w ts m)))"
  using promote_case_ok[OF assms(2,3,1), of ts] by (simp add: observe_memory_def Let_def case_prod_beta)

lemma render_returns:
  assumes "digraph_laws nx" "tables_ok cfg m" "\<forall>e \<in> set (g_edges g). \<bar>e_r e\<bar> \<le> 1"
  shows "\<exists>rg. render nx cfg m g vectors now verdict = Ret rg \<and> (\<forall>x \<in> set (rg_edges rg). \<bar>e_r x\<bar> \<le> 1) \<and>
    rg_findings rg = g_findings g \<and> rg_edges rg = render_edges cfg (mm_edges m) vectors now (g_edges g)"
proof -
  note weights = render_edges_weights[OF assms(3) tables_ok_weights[OF assms(2)], of cfg vectors now]
  obtain rb where "rerank nx g (render_edges cfg (mm_edges m) vectors now (g_edges g)) = Ret rb"
    using rerank_returns[OF assms(1) weights] by blast
  with weights show ?thesis by (simp add: render_def Let_def)
qed

lemma observe_returns:
  assumes "digraph_laws nx" "config_ok cfg" "c_tau_merge cfg \<le> 1" "mem_ok cfg m" "\<forall>e \<in> set (g_edges g). \<bar>e_r e\<bar> \<le> 1"
    and "no_collision digest cfg g (fst (mm_lib m))"
  shows "\<exists>rg m'. observe np nx digest cfg g vectors w ts now m = Ret (rg, m') \<and> mem_ok cfg m' \<and> rg_findings rg = g_findings g"
proof -
  obtain v m' where m': "observe_memory np digest cfg g vectors w ts m = (v, m')" by (cases "observe_memory np digest cfg g vectors w ts m")
  have tab: "tables_ok cfg m'" and lib: "lib_ok (mm_lib m')"
    using observe_memory_tables[OF assms(2) _ assms(5), of m np digest vectors w ts]
      observe_memory_lib[OF assms(3) _ assms(6), of np vectors w ts] assms(4) by (simp_all add: m' mem_ok_def)
  from render_returns[OF assms(1) tab assms(5), of vectors now v] tab lib show ?thesis
    by (auto simp: observe_def m' mem_ok_def)
qed

lemma fresh_memory_ok: "mem_ok cfg (fresh_memory path)"
  by (simp add: mem_ok_def tables_ok_def fresh_memory_def corr_row_def lib_ok_def total_occurrences_def)

lemma held_edges_no_pods [simp]: "held_edges cfg t [] now es = []"
proof -
  have "held_edge (wl_pods []) now kr = None" for kr by (simp add: held_edge_def wl_pods_def dict_of_def)
  then have "x \<notin> set (held_edges cfg t [] now es)" for x by (auto simp: held_edges_def)
  then show ?thesis by (metis list.set_intros(1) neq_Nil_conv)
qed

lemma migrate_schema [simp]: "mm_schema (migrate fam m) = Some SCHEMA_VERSION"
  by (simp add: migrate_def Let_def)

lemma open_memory_again: "open_memory cfg fam' now' (open_memory cfg fam now m) = open_memory cfg fam now m"
proof -
  have "migrate fam' (record_model_version now mv nt (migrate fam m)) = record_model_version now mv nt (migrate fam m)" for mv nt
    by (simp add: migrate_def [of fam'] record_model_version_def)
  then show ?thesis by (simp add: open_memory_def record_model_version_def row_insert_ignore_def)
qed

section \<open>Properties\<close>

definition demo_pods :: vectors where
  "demo_pods = [(''logger-p-7'', []), (''db-q-8'', [])]"

definition demo_held :: redge where
  "demo_held = \<lparr>e_src = ''logger-p-7'', e_dst = ''db-q-8'', e_r = 9 / 10, e_lag = 5, e_evidence = [Write, Pvc],
     x_conf = Some (4 / 10), x_base = Some (16 / 100), x_state = Some Confirming, x_hits = Some 1,
     x_last_seen = Some 60, x_origin = Some Memory\<rparr>"

lemma demo_held_edges: "held_edges default_config one_pass demo_pods 160 [] = [demo_held]"
  by code_simp

text \<open>C20. The memory never draws a ghost: every held edge joins two pods that are running now, renders a
  remembered row of exactly their workloads that is visible or has a learned floor, is not a pair
  already drawn live in either direction, and there is one held edge per pair of workloads.\<close>

theorem no_ghost_edges:
  "distinct (List.map wl_pair (held_edges cfg t vectors now es)) \<and>
   (\<forall>x \<in> set (held_edges cfg t vectors now es).
      e_src x \<in> set (keys vectors) \<and> e_dst x \<in> set (keys vectors) \<and> wl_pair x \<notin> live_pairs es \<and>
      (\<exists>row. ((stable_workload (e_src x), stable_workload (e_dst x), c_signal cfg), row) \<in> set t \<and>
         (er_visible row \<or> er_base row > 0) \<and> x_conf x = Some (py_round 3 (er_conf row))))"
proof -
  have "e_src x \<in> set (keys vectors) \<and> e_dst x \<in> set (keys vectors) \<and> wl_pair x \<notin> live_pairs es \<and>
      (\<exists>row. ((stable_workload (e_src x), stable_workload (e_dst x), c_signal cfg), row) \<in> set t \<and>
         (er_visible row \<or> er_base row > 0) \<and> x_conf x = Some (py_round 3 (er_conf row)))"
    if "x \<in> set (held_edges cfg t vectors now es)" for x
  proof -
    from held_edges_mem[OF that] obtain k row where k: "(k, row) \<in> set t" "holdable cfg (live_pairs es) (k, row)"
      "held_edge (wl_pods vectors) now (k, row) = Some x" by auto
    obtain a b s where abs: "k = (a, b, s)" by (cases k) auto
    have "stable_workload (e_src x) = a" "stable_workload (e_dst x) = b" "s = c_signal cfg"
      using held_edge_SomeD(3,4)[OF k(3)] k(2) by (simp_all add: abs holdable_def)
    then show ?thesis using held_edge_SomeD(1,2,5)[OF k(3)] k(1,2)
      by (auto simp: abs holdable_def wl_pair_def key_pair_def)
  qed
  with held_edges_distinct show ?thesis by blast
qed

theorem no_ghost_edges_witness: "e_src demo_held \<in> set (keys demo_pods) \<and> wl_pair demo_held \<notin> live_pairs []"
  using no_ghost_edges[of default_config one_pass demo_pods 160 "[]"] unfolding demo_held_edges by simp

text \<open>The learned backbone is complete: every remembered row of this signal that is visible or has a floor,
  whose workloads both run and whose pair is not drawn live, is drawn, at the confidence of the
  strongest direction of its pair.\<close>

theorem backbone_is_complete:
  assumes "(k, row) \<in> set t" "snd (snd k) = c_signal cfg" "er_visible row \<or> er_base row > 0"
    and "key_pair k \<notin> live_pairs es" "key_pair k \<subseteq> stable_workload ` set (keys vectors)"
  shows "\<exists>x \<in> set (held_edges cfg t vectors now es). wl_pair x = key_pair k \<and>
    (\<exists>c. x_conf x = Some c \<and> py_round 3 (er_conf row) \<le> c)"
  using held_edges_best[of "(k, row)" t cfg es vectors now] assms by (simp add: holdable_def)

theorem backbone_is_complete_witness:
  "\<exists>x \<in> set (held_edges default_config one_pass demo_pods 160 []). wl_pair x = {''logger'', ''db''}"
proof -
  have "stable_workload ''logger-p-7'' = ''logger''" "stable_workload ''db-q-8'' = ''db''" by code_simp+
  then have sub: "key_pair (''logger'', ''db'', ''psi_io'') \<subseteq> stable_workload ` set (keys demo_pods)"
    by (simp add: key_pair_def demo_pods_def)
  from backbone_is_complete[OF map_of_SomeD[OF one_pass_row] _ _ _ this, of default_config "[]" 160]
  show ?thesis by (auto simp: default_config_def live_pairs_def key_pair_def)
qed

text \<open>Rendering adds, it never rewrites: the live edges come first, in order and unchanged but for their
  memory columns; and without a finding the pass's verdict is passed through, so that remembered
  edges alone never name a root cause.\<close>

theorem render_keeps_the_verdict:
  assumes "render nx cfg m g vectors now verdict = Ret rg"
  shows "List.map edge.truncate (take (length (g_edges g)) (rg_edges rg)) = g_edges g \<and>
    rg_findings rg = g_findings g \<and> rm_held (rg_meta rg) = length (rg_edges rg) - length (g_edges g) \<and>
    (g_findings g = [] \<longrightarrow> rg_ranking rg = g_ranking g \<and> rg_blast rg = g_blast g)"
proof -
  from assms obtain rb where rb: "rerank nx g (render_edges cfg (mm_edges m) vectors now (g_edges g)) = Ret rb"
    and rg: "rg_edges rg = render_edges cfg (mm_edges m) vectors now (g_edges g)" "rg_findings rg = g_findings g"
      "rg_ranking rg = fst rb" "rg_blast rg = snd rb"
      "rm_held (rg_meta rg) = length (held_edges cfg (mm_edges m) vectors now (g_edges g))"
    by (auto simp: render_def outcome_simps Let_def)
  have "List.map edge.truncate (take (length (g_edges g)) (rg_edges rg)) = g_edges g"
    by (simp add: rg(1) render_edges_def comp_def live_edge_truncate)
  moreover have "rm_held (rg_meta rg) = length (rg_edges rg) - length (g_edges g)"
    by (simp add: rg render_edges_def)
  ultimately show ?thesis using rb rg by (auto simp: rerank_def)
qed

theorem render_keeps_the_verdict_witness:
  "\<exists>rg. render log_nx default_config (fresh_memory []\<lparr>mm_edges := one_pass\<rparr>) empty_graph demo_pods 160 None = Ret rg \<and>
     rg_ranking rg = [] \<and> rg_edges rg = [demo_held]"
proof -
  let ?m = "fresh_memory []\<lparr>mm_edges := one_pass\<rparr>"
  obtain rg where rg: "render log_nx default_config ?m empty_graph demo_pods 160 None = Ret rg"
    by (simp add: render_def rerank_def empty_graph_def Let_def)
  moreover have "rg_edges rg = [demo_held]"
    using rg by (simp add: render_def rerank_def empty_graph_def render_edges_def demo_held_edges Let_def) auto
  ultimately show ?thesis using render_keeps_the_verdict[OF rg] by (simp add: empty_graph_def)
qed

text \<open>A restart invents nothing: the graph served before the first pass is defined and has no edge, no
  finding and no root cause, whatever the database remembers.\<close>

theorem bootstrap_is_empty:
  "\<exists>rg. bootstrap_graph nx cfg now m = Ret rg \<and> rg_edges rg = [] \<and> rg_findings rg = [] \<and> rg_ranking rg = [] \<and>
     rg_blast rg = [] \<and> rm_stats (rg_meta rg) = stats m"
  by (simp add: bootstrap_graph_def render_def render_edges_def rerank_def empty_graph_def Let_def)

text \<open>C21. Observing is safe: from a memory that satisfies the invariant (unique keys, bounded rows,
  correlations in \<open>[-1, 1]\<close>, a consistent case library) and a pass whose correlations are
  correlations, \<open>observe\<close> returns, keeps the invariant and reports exactly the pass's findings.\<close>

theorem observe_safe:
  assumes "digraph_laws nx" "config_ok cfg" "c_tau_merge cfg \<le> 1" "mem_ok cfg m" "\<forall>e \<in> set (g_edges g). \<bar>e_r e\<bar> \<le> 1"
    and "no_collision digest cfg g (fst (mm_lib m))"
  shows "\<exists>rg m'. observe np nx digest cfg g vectors w ts now m = Ret (rg, m') \<and> mem_ok cfg m' \<and> rg_findings rg = g_findings g"
  using observe_returns[OF assms] by blast

theorem observe_safe_witness:
  "\<exists>rg m'. observe quick_num log_nx name_digest default_config writer_graph demo_pods None 7 8 (fresh_memory []) = Ret (rg, m') \<and>
     mem_ok default_config m'"
proof -
  have "c_tau_merge default_config \<le> 1" by (simp add: default_config_def)
  moreover have "\<forall>e \<in> set (g_edges writer_graph). \<bar>e_r e\<bar> \<le> 1"
    by (simp add: writer_graph_def writer_edge_found_def)
  moreover have "no_collision name_digest default_config writer_graph (fst (mm_lib (fresh_memory [])))"
    by (simp add: no_collision_def fresh_memory_def)
  ultimately obtain rg m' where
    "observe quick_num log_nx name_digest default_config writer_graph demo_pods None 7 8 (fresh_memory []) = Ret (rg, m')"
    "mem_ok default_config m'"
    using observe_safe[OF log_nx_laws default_config_ok _ fresh_memory_ok, of writer_graph name_digest "[]" quick_num demo_pods None 7 8]
    by blast
  then show ?thesis by blast
qed

text \<open>Opening keeps the archive: the database ends at the current schema, opening it again, at any later
  time, changes nothing; only a version-1 database loses its pod-keyed edges, and cases,
  observations, baselines and snapshots survive, every case with a family once the column is there.\<close>

theorem opening_preserves_archive:
  "open_memory cfg fam' now' (open_memory cfg fam now m) = open_memory cfg fam now m \<and>
   mm_schema (open_memory cfg fam now m) = Some SCHEMA_VERSION \<and>
   keys (fst (mm_lib (open_memory cfg fam now m))) = keys (fst (mm_lib m)) \<and>
   snd (mm_lib (open_memory cfg fam now m)) = snd (mm_lib m) \<and>
   mm_baselines (open_memory cfg fam now m) = mm_baselines m \<and>
   mm_snapshots (open_memory cfg fam now m) = mm_snapshots m \<and>
   mm_edges (open_memory cfg fam now m) = (if mm_schema m = Some ''l3-memory-v1'' then [] else mm_edges m) \<and>
   (\<not> fam \<and> mm_schema m \<noteq> Some SCHEMA_VERSION \<longrightarrow>
      (\<forall>c \<in> set (fst (mm_lib (open_memory cfg fam now m))). cr_family (snd c) \<noteq> None))"
  unfolding open_memory_again
  by (auto simp: open_memory_def record_model_version_def migrate_def SCHEMA_VERSION_def Let_def comp_def case_prod_beta)

definition familyless :: memory where
  "familyless = fresh_memory []\<lparr>mm_lib := (List.map (\<lambda>(cid, row). (cid, row\<lparr>cr_family := None\<rparr>)) (fst first_library), [])\<rparr>"

lemma familyless_simps: "mm_schema familyless = None" "keys (fst (mm_lib familyless)) = [''ba'']"
proof -
  have "keys (fst (mm_lib familyless)) = keys (fst first_library)"
    by (simp add: familyless_def comp_def case_prod_beta)
  then show "keys (fst (mm_lib familyless)) = [''ba'']" by (simp only: first_library_keys(2))
qed (simp add: familyless_def fresh_memory_def)

theorem opening_preserves_archive_witness:
  "cr_family (snd (hd (fst (mm_lib (open_memory default_config False 5 familyless))))) \<noteq> None \<and>
   open_memory default_config True 9 (open_memory default_config False 5 familyless) = open_memory default_config False 5 familyless"
proof -
  let ?m = "open_memory default_config False 5 familyless"
  note h = opening_preserves_archive[of default_config True 9 False 5 familyless]
  have "\<forall>c \<in> set (fst (mm_lib ?m)). cr_family (snd c) \<noteq> None"
    using h familyless_simps(1) by (simp add: SCHEMA_VERSION_def)
  moreover have "fst (mm_lib ?m) \<noteq> []" using h familyless_simps(2) by auto
  ultimately show ?thesis using h by simp
qed

end
