(* ===== verification/Graph_Merge.thy ===== *)
theory Graph_Merge
  imports Observe
begin

text \<open>
  The union of the per-signal graphs, \<open>src/correlation/engine/merge.py\<close>: every edge and finding gets the
  tag of its signal, the ranking is redone over the union, the statistics are summed, and the case and
  the label come from the signal that owns the top root cause.
\<close>

record tedge = redge +
  e_signal :: string

record tfinding = finding +
  f_signal :: string

type_synonym per_signal = "(string, rgraph) dict"

record merged_stats =
  ms_edges :: nat
  ms_visible :: nat
  ms_cases :: nat
  ms_families :: nat
  ms_mistakes :: nat
  ms_held :: nat

record mmeta =
  mg_signals :: "string list"
  mg_stats :: "merged_stats option"
  mg_case :: "case_verdict option"
  mg_label :: "string option"
  mg_pods :: nat
  mg_active :: nat
  mg_accepted :: nat

record mgraph =
  mg_findings :: "tfinding list"
  mg_edges :: "tedge list"
  mg_ranking :: "root_cause list"
  mg_blast :: "victim list"
  mg_meta :: mmeta

definition tag_edge :: "string \<Rightarrow> redge \<Rightarrow> tedge" where
  "tag_edge s e = redge.extend e \<lparr>e_signal = s\<rparr>"

definition tag_finding :: "string \<Rightarrow> finding \<Rightarrow> tfinding" where
  "tag_finding s f = finding.extend f \<lparr>f_signal = s\<rparr>"

definition merged_edges :: "per_signal \<Rightarrow> tedge list" where
  "merged_edges ps = concat (List.map (\<lambda>(s, g). List.map (tag_edge s) (rg_edges g)) ps)"

definition merged_findings :: "per_signal \<Rightarrow> tfinding list" where
  "merged_findings ps = concat (List.map (\<lambda>(s, g). List.map (tag_finding s) (rg_findings g)) ps)"

text \<open>The ranking is seeded only with findings that sit on the graph; with none, nothing is blamed.\<close>

definition merged_verdict ::
  "'g nxlib \<Rightarrow> tedge list \<Rightarrow> tfinding list \<Rightarrow> (root_cause list \<times> victim list) outcome" where
  "merged_verdict nx edges findings =
     (if edges = [] \<or> findings = [] then Ret ([], [])
      else
       (let g = build_graph nx edges;
            seeds = filter (\<lambda>p. p \<in> set (nx_nodes nx g)) (List.map f_pod findings);
            onset = dict_of (List.map (\<lambda>f. (f_pod f, f_onset_s f)) findings)
        in if seeds = [] then Ret ([], [])
           else obind (rank_root_causes nx g seeds onset 3) (\<lambda>ranking.
                obind (case ranking of [] \<Rightarrow> Ret [] | r # _ \<Rightarrow> blast_radius nx g (rc_pod r)) (\<lambda>blast.
                Ret (ranking, blast)))))"

definition sum_stats :: "per_signal \<Rightarrow> merged_stats option" where
  "sum_stats ps =
     (if ps = [] then None
      else (let tot = (\<lambda>f. sum_list (List.map (\<lambda>(s, g). f (rg_meta g)) ps))
            in Some \<lparr>ms_edges = tot (\<lambda>m. st_edges (rm_stats m)), ms_visible = tot (\<lambda>m. st_visible (rm_stats m)),
                     ms_cases = tot (\<lambda>m. st_cases (rm_stats m)), ms_families = tot (\<lambda>m. st_families (rm_stats m)),
                     ms_mistakes = tot (\<lambda>m. st_mistakes (rm_stats m)), ms_held = tot rm_held\<rparr>))"

definition active_signal :: "tedge list \<Rightarrow> root_cause list \<Rightarrow> string option" where
  "active_signal edges ranking =
     (case ranking of [] \<Rightarrow> None
      | r # _ \<Rightarrow> (case filter (\<lambda>e. e_src e = rc_pod r) edges of [] \<Rightarrow> None | e # _ \<Rightarrow> Some (e_signal e)))"

text \<open>\<open>a or b\<close>: an empty string counts as absent.\<close>

definition str_or :: "string option \<Rightarrow> string option \<Rightarrow> string option" where
  "str_or a b = (case a of Some (c # cs) \<Rightarrow> Some (c # cs) | _ \<Rightarrow> b)"

definition merge_graphs :: "'g nxlib \<Rightarrow> per_signal \<Rightarrow> string option \<Rightarrow> mgraph outcome" where
  "merge_graphs nx ps primary =
     (let edges = merged_edges ps; findings = merged_findings ps
      in obind (merged_verdict nx edges findings) (\<lambda>(ranking, blast).
         let active = active_signal edges ranking
         in Ret \<lparr>mg_findings = findings, mg_edges = edges, mg_ranking = ranking, mg_blast = blast,
                 mg_meta = \<lparr>mg_signals = sort (keys ps), mg_stats = sum_stats ps,
                   mg_case = (case str_or active None of None \<Rightarrow> None
                              | Some s \<Rightarrow> (case map_of ps s of None \<Rightarrow> None | Some g \<Rightarrow> rm_case (rg_meta g))),
                   mg_label = str_or active (str_or primary (if ps = [] then None else Some (hd (sort (keys ps))))),
                   mg_pods = foldr (\<lambda>(s, g). max (rm_pods (rg_meta g))) ps 0,
                   mg_active = card (set (List.map f_pod findings)),
                   mg_accepted = length edges\<rparr>\<rparr>))"

section \<open>Lemmas\<close>

lemma tag_edge_simps [simp]:
  "e_src (tag_edge s e) = e_src e" "e_dst (tag_edge s e) = e_dst e" "e_r (tag_edge s e) = e_r e" "e_signal (tag_edge s e) = s"
  by (simp_all add: tag_edge_def redge.defs)

lemma tag_finding_simps [simp]:
  "f_pod (tag_finding s f) = f_pod f" "f_onset_s (tag_finding s f) = f_onset_s f" "f_signal (tag_finding s f) = s"
  by (simp_all add: tag_finding_def finding.defs)

lemma tag_truncate [simp]: "redge.truncate (tag_edge s e) = e" "finding.truncate (tag_finding s f) = f"
  by (simp_all add: tag_edge_def tag_finding_def redge.defs finding.defs)

lemma merged_edges_mem: "x \<in> set (merged_edges ps) \<longleftrightarrow> (\<exists>s g e. (s, g) \<in> set ps \<and> e \<in> set (rg_edges g) \<and> x = tag_edge s e)"
  by (force simp: merged_edges_def)

lemma merged_findings_mem: "x \<in> set (merged_findings ps) \<longleftrightarrow> (\<exists>s g f. (s, g) \<in> set ps \<and> f \<in> set (rg_findings g) \<and> x = tag_finding s f)"
  by (force simp: merged_findings_def)

definition signals_sound :: "per_signal \<Rightarrow> bool" where
  "signals_sound ps \<longleftrightarrow> (\<forall>(s, g) \<in> set ps. s \<noteq> [] \<and> (\<forall>e \<in> set (rg_edges g). \<bar>e_r e\<bar> \<le> 1))"

lemma merged_edges_weights: "signals_sound ps \<Longrightarrow> \<forall>e \<in> set (merged_edges ps). \<bar>e_r e\<bar> \<le> 1"
  by (fastforce simp: signals_sound_def merged_edges_mem)

lemma merged_verdict_returns:
  assumes "digraph_laws nx" "\<forall>e \<in> set edges. \<bar>e_r e\<bar> \<le> 1"
  shows "\<exists>rb. merged_verdict nx edges findings = Ret rb"
proof -
  let ?g = "build_graph nx edges"
  let ?seeds = "filter (\<lambda>p. p \<in> set (nx_nodes nx ?g)) (List.map f_pod findings)"
  obtain rs where rs: "rank_root_causes nx ?g ?seeds (dict_of (List.map (\<lambda>f. (f_pod f, f_onset_s f)) findings)) 3 = Ret rs"
    using rank_root_causes_returns[OF assms] by blast
  have "\<exists>ds. (case rs of [] \<Rightarrow> Ret [] | r # _ \<Rightarrow> blast_radius nx ?g (rc_pod r)) = Ret ds"
    using blast_radius_returns[OF assms(1)] by (cases rs) auto
  with rs show ?thesis by (auto simp: merged_verdict_def Let_def)
qed

lemma merge_graphs_returns:
  assumes "digraph_laws nx" "signals_sound ps"
  shows "\<exists>m. merge_graphs nx ps primary = Ret m"
  using merged_verdict_returns[OF assms(1) merged_edges_weights[OF assms(2)], of "merged_findings ps"]
  by (auto simp: merge_graphs_def Let_def)

text \<open>A pod that explains anything is the source of an edge.\<close>

lemma walk_starts: "walk out a v x t \<Longrightarrow> out a \<noteq> []"
  by (induction rule: walk.induct) auto

lemma build_graph_in_degree:
  assumes laws: "digraph_laws nx" and "e \<in> set es"
  shows "0 < nx_in_degree nx (build_graph nx es) (e_dst e)"
  using assms(2)
proof (induction es arbitrary: e rule: rev_induct)
  case (snoc x es)
  let ?g = "build_graph nx es"
  have deg: "nx_in_degree nx (build_graph nx (es @ [x])) n =
      nx_in_degree nx ?g n + (if n = e_dst x \<and> e_dst x \<notin> fst ` set (nx_out_edges nx ?g (e_src x)) then 1 else 0)" for n
    using laws by (simp add: build_graph_snoc add_edge_of_def digraph_laws_def)
  show ?case
  proof (cases "e \<in> set es")
    case False
    then have e: "e = x" using snoc.prems by simp
    show ?thesis
    proof (cases "e_dst x \<in> fst ` set (nx_out_edges nx ?g (e_src x))")
      case True
      then obtain e' where "e' \<in> set es" "e_dst e' = e_dst x" using build_graph_out[OF laws] by fastforce
      with snoc.IH[of e'] have "0 < nx_in_degree nx ?g (e_dst x)" by simp
      then show ?thesis by (simp add: deg e)
    qed (simp add: deg e)
  qed (simp add: snoc.IH deg)
qed simp

lemma explainer_is_source:
  assumes "digraph_laws nx" "\<forall>e \<in> set es. \<bar>e_r e\<bar> \<le> 1"
    and "n \<in> set (nx_nodes nx (build_graph nx es))" "forward_impact nx (build_graph nx es) n = Ret imp"
    and "0 < explain_score nx (build_graph nx es) ss n imp"
  shows "n \<in> e_src ` set es"
proof (rule ccontr)
  assume no: "n \<notin> e_src ` set es"
  then have "nx_out_edges nx (build_graph nx es) n = []"
    using build_graph_out[OF assms(1)] by (metis image_eqI list.set_intros(1) neq_Nil_conv surj_pair)
  then have "\<not> walk (nx_out_edges nx (build_graph nx es)) n v x t" for v x t using walk_starts by blast
  then have "map_of imp v = None" for v
    using forward_impact_exact[OF build_graph_weights_ok[OF assms(1,2)], of n] assms(4) by (metis option.exhaust outcome.inject)
  then have "imp = []" by (cases imp) (auto, metis fun_upd_same option.distinct(1))
  moreover have "0 < nx_in_degree nx (build_graph nx es) n"
    using no assms(3) build_graph_nodes[OF assms(1), of es] build_graph_in_degree[OF assms(1)] by auto
  ultimately show False using assms(5) by (simp add: explain_score_def Let_def)
qed

lemma ranked_is_source:
  assumes "digraph_laws nx" "\<forall>e \<in> set es. \<bar>e_r e\<bar> \<le> 1"
    and "rank_root_causes nx (build_graph nx es) seeds onset_s k = Ret rs" "r \<in> set rs"
  shows "rc_pod r \<in> e_src ` set es"
proof -
  let ?g = "build_graph nx es"
  obtain imp scores where sc: "\<And>n. forward_impact nx ?g n = Ret (imp n)" "root_scores nx ?g seeds = Ret scores"
    "\<And>n s. (n, s) \<in> set scores \<longleftrightarrow> n \<in> set (nx_nodes nx ?g) \<and> s > 0 \<and>
       s = explain_score nx ?g (seed_set_of nx ?g seeds) n (imp n)"
    using root_scores_facts[OF assms(1,2), of seeds] by metis
  have "nx_number_of_edges nx ?g \<noteq> 0"
  proof
    assume "nx_number_of_edges nx ?g = 0"
    then have "rs = []" using assms(3) by (simp add: rank_root_causes_def)
    with assms(4) show False by simp
  qed
  from rank_root_causes_scores[OF sc(2) this, of onset_s k] assms(3,4)
  obtain s where "(rc_pod r, s) \<in> set (take k (ranked_of onset_s scores))" by auto
  then have "(rc_pod r, s) \<in> set scores" using set_take_subset[of k "ranked_of onset_s scores"] by auto
  then show ?thesis using sc(3) explainer_is_source[OF assms(1,2) _ sc(1)] by metis
qed

lemma merged_verdict_blames:
  assumes "digraph_laws nx" "\<forall>e \<in> set edges. \<bar>e_r e\<bar> \<le> 1" "merged_verdict nx edges findings = Ret (ranking, blast)" "r \<in> set ranking"
  shows "rc_pod r \<in> e_src ` set edges \<and> (\<exists>f \<in> set findings. f_pod f \<in> e_src ` set edges \<union> e_dst ` set edges)"
proof -
  let ?g = "build_graph nx edges"
  let ?seeds = "filter (\<lambda>p. p \<in> set (nx_nodes nx ?g)) (List.map f_pod findings)"
  have "?seeds \<noteq> []" "rank_root_causes nx ?g ?seeds (dict_of (List.map (\<lambda>f. (f_pod f, f_onset_s f)) findings)) 3 = Ret ranking"
    using assms(3,4) by (auto simp: merged_verdict_def Let_def outcome_simps split: if_splits)
  moreover from this(1) obtain f where "f \<in> set findings" "f_pod f \<in> set (nx_nodes nx ?g)"
    by (auto simp: filter_empty_conv)
  ultimately show ?thesis
    using ranked_is_source[OF assms(1,2) _ assms(4)] build_graph_nodes[OF assms(1), of edges] by blast
qed

lemma active_signal_owner:
  assumes "rc_pod r \<in> e_src ` set edges"
  shows "\<exists>e \<in> set edges. e_src e = rc_pod r \<and> active_signal edges (r # rs) = Some (e_signal e)"
proof (cases "filter (\<lambda>e. e_src e = rc_pod r) edges")
  case Nil
  with assms show ?thesis by (auto simp: filter_empty_conv)
next
  case (Cons e es)
  have "e \<in> set (filter (\<lambda>e. e_src e = rc_pod r) edges)" by (simp only: Cons list.set_intros)
  then have "e \<in> set edges" "e_src e = rc_pod r" by simp_all
  with Cons show ?thesis by (auto intro!: bexI[of _ e] simp: active_signal_def)
qed

section \<open>Two small merges\<close>

definition io_edge :: "pod \<Rightarrow> real \<Rightarrow> redge" where
  "io_edge p r = \<lparr>e_src = p, e_dst = ''v'', e_r = r, e_lag = 5, e_evidence = [Stat, Write], x_conf = None, x_base = None,
     x_state = None, x_hits = None, x_last_seen = None, x_origin = Some Live\<rparr>"

definition signal_graph :: "finding list \<Rightarrow> redge list \<Rightarrow> rgraph" where
  "signal_graph fs es = \<lparr>rg_findings = fs, rg_edges = es, rg_ranking = [], rg_blast = [],
     rg_meta = \<lparr>rm_pods = 3, rm_active = length fs, rm_accepted = length es, rm_held = 0, rm_case = None, rm_stats = stats (fresh_memory [])\<rparr>\<rparr>"

definition v_finding :: finding where
  "v_finding = \<lparr>f_pod = ''v'', f_class = Burst, f_onset_s = 0, f_severity = 1, f_n_onsets = 1\<rparr>"

definition io_only :: per_signal where
  "io_only = [(''psi_io'', signal_graph [v_finding] [io_edge ''a'' (9 / 10), io_edge ''b'' (8 / 10)])]"

definition io_and_cpu :: per_signal where
  "io_and_cpu = io_only @ [(''psi_cpu'', signal_graph [] [io_edge ''a'' (6 / 10)])]"

lemma small_merges_sound: "signals_sound io_only" "signals_sound io_and_cpu"
  by (simp_all add: signals_sound_def io_only_def io_and_cpu_def signal_graph_def io_edge_def)

section \<open>Properties\<close>

text \<open>Merging loses nothing: it returns, with every edge and finding of every signal exactly once, in order,
  unchanged but for the tag of its signal, and counts of the edges and of the distinct deviating pods
  that are those of the union.\<close>

theorem merge_keeps_everything:
  assumes "digraph_laws nx" "signals_sound ps"
  shows "\<exists>m. merge_graphs nx ps primary = Ret m \<and>
    List.map redge.truncate (mg_edges m) = concat (List.map (\<lambda>(s, g). rg_edges g) ps) \<and>
    List.map finding.truncate (mg_findings m) = concat (List.map (\<lambda>(s, g). rg_findings g) ps) \<and>
    (\<forall>e \<in> set (mg_edges m). \<exists>g. (e_signal e, g) \<in> set ps \<and> redge.truncate e \<in> set (rg_edges g)) \<and>
    mg_accepted (mg_meta m) = sum_list (List.map (\<lambda>(s, g). length (rg_edges g)) ps) \<and>
    mg_active (mg_meta m) = card (f_pod ` (\<Union>(s, g) \<in> set ps. set (rg_findings g)))"
proof -
  obtain m where m: "merge_graphs nx ps primary = Ret m" using merge_graphs_returns[OF assms] by blast
  then have eq: "mg_edges m = merged_edges ps" "mg_findings m = merged_findings ps"
    "mg_accepted (mg_meta m) = length (merged_edges ps)" "mg_active (mg_meta m) = card (f_pod ` set (merged_findings ps))"
    by (auto simp: merge_graphs_def outcome_simps Let_def)
  have "List.map redge.truncate (merged_edges ps) = concat (List.map (\<lambda>(s, g). rg_edges g) ps)"
    "List.map finding.truncate (merged_findings ps) = concat (List.map (\<lambda>(s, g). rg_findings g) ps)"
    by (simp_all add: merged_edges_def merged_findings_def map_concat comp_def case_prod_beta')
  moreover have "length (merged_edges ps) = sum_list (List.map (\<lambda>(s, g). length (rg_edges g)) ps)"
    by (simp add: merged_edges_def length_concat comp_def case_prod_beta')
  moreover have "f_pod ` set (merged_findings ps) = f_pod ` (\<Union>(s, g) \<in> set ps. set (rg_findings g))"
    by (force simp: merged_findings_def)
  moreover have "\<exists>g. (e_signal e, g) \<in> set ps \<and> redge.truncate e \<in> set (rg_edges g)" if "e \<in> set (merged_edges ps)" for e
    using that by (auto simp: merged_edges_mem)
  ultimately show ?thesis using m eq by auto
qed

theorem merge_keeps_everything_witness:
  "\<exists>m. merge_graphs log_nx io_and_cpu None = Ret m \<and> mg_accepted (mg_meta m) = 3"
proof -
  from merge_keeps_everything[OF log_nx_laws small_merges_sound(2), of None]
  obtain m where "merge_graphs log_nx io_and_cpu None = Ret m"
    "mg_accepted (mg_meta m) = sum_list (List.map (\<lambda>(s, g). length (rg_edges g)) io_and_cpu)" by blast
  then show ?thesis by (intro exI[of _ m]) (simp add: io_and_cpu_def io_only_def signal_graph_def)
qed

text \<open>C16. The merged verdict is never invented: a root cause is named only when some finding's pod is an
  endpoint of an edge, every root is the source of an edge, and the label and the case shown are those
  of a signal whose graph has an edge leaving the top root. With no root there is no victim, no case,
  and the label is the primary signal.\<close>

theorem merged_verdict_is_owned:
  assumes "digraph_laws nx" "signals_sound ps" "distinct (keys ps)" "merge_graphs nx ps (Some (c # cs)) = Ret m"
  shows "(case mg_ranking m of
      [] \<Rightarrow> mg_blast m = [] \<and> mg_case (mg_meta m) = None \<and> mg_label (mg_meta m) = Some (c # cs)
    | r # rs \<Rightarrow> (\<forall>r' \<in> set (r # rs). rc_pod r' \<in> e_src ` set (mg_edges m)) \<and>
        (\<exists>f \<in> set (mg_findings m). f_pod f \<in> e_src ` set (mg_edges m) \<union> e_dst ` set (mg_edges m)) \<and>
        (\<exists>s g e. (s, g) \<in> set ps \<and> e \<in> set (rg_edges g) \<and> e_src e = rc_pod r \<and>
           mg_label (mg_meta m) = Some s \<and> mg_case (mg_meta m) = rm_case (rg_meta g)))"
proof -
  note w = merged_edges_weights[OF assms(2)]
  from assms(4) have v: "merged_verdict nx (merged_edges ps) (merged_findings ps) = Ret (mg_ranking m, mg_blast m)"
    and eq: "mg_edges m = merged_edges ps" "mg_findings m = merged_findings ps"
    and lab: "mg_label (mg_meta m) = str_or (active_signal (mg_edges m) (mg_ranking m)) (Some (c # cs))"
    and cse: "mg_case (mg_meta m) = (case str_or (active_signal (mg_edges m) (mg_ranking m)) None of
        None \<Rightarrow> None | Some s \<Rightarrow> (case map_of ps s of None \<Rightarrow> None | Some g \<Rightarrow> rm_case (rg_meta g)))"
    by (auto simp: merge_graphs_def outcome_simps Let_def str_or_def split: option.split)
  show ?thesis
  proof (cases "mg_ranking m")
    case Nil
    then show ?thesis using v lab cse
      by (auto simp: merged_verdict_def Let_def outcome_simps active_signal_def str_or_def split: if_splits)
  next
    case (Cons r rs)
    note b = merged_verdict_blames[OF assms(1) w v, folded eq]
    from b[of r] Cons active_signal_owner[of r "mg_edges m" rs] obtain e where
      e: "e \<in> set (mg_edges m)" "e_src e = rc_pod r" "active_signal (mg_edges m) (mg_ranking m) = Some (e_signal e)" by auto
    from e(1) obtain g where g: "(e_signal e, g) \<in> set ps" "redge.truncate e \<in> set (rg_edges g)" "e_src (redge.truncate e) = e_src e"
      by (auto simp: eq merged_edges_mem)
    have "e_signal e \<noteq> []" using assms(2) g(1) by (auto simp: signals_sound_def)
    then have "str_or (Some (e_signal e)) x = Some (e_signal e)" for x by (simp add: str_or_def split: list.split)
    moreover have "map_of ps (e_signal e) = Some g" using g(1) assms(3) by simp
    ultimately have "mg_label (mg_meta m) = Some (e_signal e)" "mg_case (mg_meta m) = rm_case (rg_meta g)"
      using lab cse e(3) by simp_all
    with Cons b g e(2) show ?thesis by auto
  qed
qed

theorem merged_verdict_is_owned_witness:
  "\<exists>m. merge_graphs log_nx io_only (Some ''psi_io'') = Ret m \<and> mg_label (mg_meta m) = Some ''psi_io'' \<and>
     (case mg_ranking m of [] \<Rightarrow> mg_blast m = [] | r # rs \<Rightarrow> rc_pod r \<in> e_src ` set (mg_edges m))"
proof -
  obtain m where m: "merge_graphs log_nx io_only (Some ''psi_io'') = Ret m"
    using merge_graphs_returns[OF log_nx_laws small_merges_sound(1)] by blast
  have d: "distinct (keys io_only)" and "\<And>s g. (s, g) \<in> set io_only \<Longrightarrow> s = ''psi_io''" by (simp_all add: io_only_def)
  with merged_verdict_is_owned[OF log_nx_laws small_merges_sound(1) d m]
  have "mg_label (mg_meta m) = Some ''psi_io'' \<and> (case mg_ranking m of [] \<Rightarrow> mg_blast m = [] | r # rs \<Rightarrow> rc_pod r \<in> e_src ` set (mg_edges m))"
    by (cases "mg_ranking m") (simp, fastforce)
  with m show ?thesis by blast
qed


end
