(* ===== verification/Time_Grid.thy ===== *)
theory Time_Grid
  imports Pipeline
begin

text \<open>
  The inputs of a pass, \<open>build_inputs\<close> of \<open>src/correlation/service.py\<close>: the samples of the aggregator's
  window, gappy and positional, are resampled by sample-and-hold onto one wall-clock grid, so that
  column \<open>k\<close> is the same instant for every pod. \<open>datetime.fromisoformat(...).timestamp()\<close> is the
  parameter \<open>fromiso\<close>, which has no value on a string it rejects.
\<close>

record sample =
  sm_ts :: string
  sm_value :: "real option"

type_synonym window = "(string, sample list) dict"
type_synonym points = "(real \<times> real) list"
type_synonym series = "string \<Rightarrow> (pod, points) dict"

record event =
  en_kind :: "string option"
  en_pod :: "pod option"

definition replace_Z :: "string \<Rightarrow> string" where
  "replace_Z s = concat (List.map (\<lambda>c. if c = CHR ''Z'' then ''+00:00'' else [c]) s)"

definition epoch :: "(string \<Rightarrow> real option) \<Rightarrow> string \<Rightarrow> real option" where
  "epoch fromiso ts = fromiso (replace_Z ts)"

text \<open>The points of one series: a sample whose time cannot be read is skipped before its value is.\<close>

definition point_of :: "(string \<Rightarrow> real option) \<Rightarrow> sample \<Rightarrow> (real \<times> real) option outcome" where
  "point_of fromiso s =
     (case epoch fromiso (sm_ts s) of
        None \<Rightarrow> Ret None
      | Some t \<Rightarrow> (case sm_value s of None \<Rightarrow> Raise KeyError | Some v \<Rightarrow> Ret (Some (t, v))))"

definition points_of :: "(string \<Rightarrow> real option) \<Rightarrow> sample list \<Rightarrow> points outcome" where
  "points_of fromiso samples = obind (omap (point_of fromiso) samples) (\<lambda>ps. Ret (sort (somes ps)))"

definition MIN_COVERAGE :: nat where "MIN_COVERAGE = 12"
definition GRID_N :: nat where "GRID_N = 180"

definition add_series ::
  "(string \<Rightarrow> real option) \<Rightarrow> string list \<Rightarrow> string \<times> sample list \<Rightarrow> series \<times> real \<Rightarrow> (series \<times> real) outcome" where
  "add_series fromiso wanted entry acc =
     (let parts = py_split (CHR ''/'') (fst entry) in
      if length parts < 3 \<or> last parts \<notin> set wanted \<or> snd entry = [] then Ret acc
      else obind (points_of fromiso (snd entry)) (\<lambda>pts.
        if length pts < MIN_COVERAGE then Ret acc
        else Ret ((fst acc)(last parts := AList.update (parts ! 1) pts (fst acc (last parts))),
                  max (snd acc) (fst (last pts)))))"

fun collect :: "(string \<Rightarrow> real option) \<Rightarrow> string list \<Rightarrow> window \<Rightarrow> series \<times> real \<Rightarrow> (series \<times> real) outcome" where
  "collect fromiso wanted [] acc = Ret acc"
| "collect fromiso wanted (entry # rest) acc = obind (add_series fromiso wanted entry acc) (collect fromiso wanted rest)"

section \<open>The grid\<close>

definition grid :: "real \<Rightarrow> real \<Rightarrow> nat \<Rightarrow> real list" where
  "grid latest step n = List.map (\<lambda>k. latest - step * (of_nat n - 1 - of_nat k)) [0..<n]"

text \<open>The inner \<open>while\<close>: move on as long as the next point is not after the limit.\<close>

function advance :: "real \<Rightarrow> points \<Rightarrow> nat \<Rightarrow> nat" where
  "advance bnd pts j = (if j + 1 < length pts \<and> fst (pts ! (j + 1)) \<le> bnd then advance bnd pts (j + 1) else j)"
  by pat_completeness auto
termination by (relation "measure (\<lambda>(bnd, pts, j). length pts - j)") auto

declare advance.simps [simp del]

fun resample :: "real \<Rightarrow> points \<Rightarrow> nat \<Rightarrow> real list \<Rightarrow> real option list" where
  "resample step pts j [] = []"
| "resample step pts j (gt # gts) =
     (let j' = advance (gt + step / 2) pts j in
      (if \<bar>fst (pts ! j') - gt\<bar> \<le> step then Some (snd (pts ! j')) else None) # resample step pts j' gts)"

definition pod_vector :: "real \<Rightarrow> real \<Rightarrow> points \<Rightarrow> vec option" where
  "pod_vector latest step pts =
     (if fst (last pts) < latest - 2 * step then None
      else
       (let v = resample step pts 0 (grid latest step GRID_N) in
        if length (filter (\<lambda>x. x \<noteq> None) v) \<ge> MIN_COVERAGE
        then Some (List.map (\<lambda>x. case x of None \<Rightarrow> 0 | Some y \<Rightarrow> y) v) else None))"

definition to_vectors :: "real \<Rightarrow> real \<Rightarrow> (pod, points) dict \<Rightarrow> vectors" where
  "to_vectors latest step per_pod =
     somes (List.map (\<lambda>(p, pts). map_option (Pair p) (pod_vector latest step pts)) per_pod)"

definition candidate_pods :: "event option list \<Rightarrow> pod list outcome" where
  "candidate_pods events =
     obind (omap (\<lambda>e. case en_pod e of None \<Rightarrow> Raise KeyError | Some p \<Rightarrow> Ret p)
              (filter (\<lambda>e. en_kind e = Some ''anomaly_candidate'') (somes events)))
       (\<lambda>ps. Ret (sorted_list_of_set (set ps)))"

definition build_inputs ::
  "(string \<Rightarrow> real option) \<Rightarrow> string list \<Rightarrow> real \<Rightarrow> window \<Rightarrow> event option list \<Rightarrow>
   ((string, vectors) dict \<times> pod list) outcome" where
  "build_inputs fromiso wanted step window events =
     obind (collect fromiso wanted window (\<lambda>_. [], 0)) (\<lambda>(raw, latest).
     obind (candidate_pods events) (\<lambda>breach.
     Ret (List.map (\<lambda>s. (s, to_vectors latest step (raw s))) wanted, breach)))"

section \<open>Lemmas: the hold loop\<close>

text \<open>What the loop computes: the last sample not after the limit, and the first sample before all of them.\<close>

definition hold_at :: "real \<Rightarrow> points \<Rightarrow> real \<Rightarrow> real option" where
  "hold_at step pts gt =
     (let past = filter (\<lambda>p. fst p \<le> gt + step / 2) pts; p = (if past = [] then hd pts else last past)
      in if \<bar>fst p - gt\<bar> \<le> step then Some (snd p) else None)"

lemma filter_takeWhile:
  "sorted (List.map fst pts) \<Longrightarrow> filter (\<lambda>p. fst p \<le> bnd) pts = takeWhile (\<lambda>p. fst p \<le> (bnd :: real)) pts"
proof (induction pts)
  case (Cons p pts)
  show ?case
  proof (cases "fst p \<le> bnd")
    case True
    with Cons show ?thesis by simp
  next
    case False
    with Cons.prems have "\<forall>q \<in> set pts. \<not> fst q \<le> bnd" by force
    with False show ?thesis by (simp add: filter_empty_conv)
  qed
qed simp

lemma advance_takeWhile:
  assumes "sorted (List.map fst pts)" "j \<le> length (takeWhile (\<lambda>p. fst p \<le> bnd) pts) - 1"
  shows "advance bnd pts j = length (takeWhile (\<lambda>p. fst p \<le> bnd) pts) - 1"
  using assms(2)
proof (induction "length pts - j" arbitrary: j)
  case 0
  let ?w = "takeWhile (\<lambda>p. fst p \<le> bnd) pts"
  have "length ?w \<le> length pts" by (rule length_takeWhile_le)
  with 0 have "j = length ?w - 1" by linarith
  with 0 show ?case by (subst advance.simps) auto
next
  case (Suc n)
  let ?w = "takeWhile (\<lambda>p. fst p \<le> bnd) pts"
  have le: "length ?w \<le> length pts" by (rule length_takeWhile_le)
  show ?case
  proof (cases "j < length ?w - 1")
    case True
    then have "j + 1 < length ?w" by linarith
    then have "pts ! (j + 1) \<in> set ?w" by (metis nth_mem takeWhile_nth)
    then have "fst (pts ! (j + 1)) \<le> bnd" using set_takeWhileD by force
    moreover have "advance bnd pts (j + 1) = length ?w - 1" by (rule Suc.hyps(1)) (use Suc True in auto)
    ultimately show ?thesis using \<open>j + 1 < length ?w\<close> le by (subst advance.simps) simp
  next
    case False
    then have j: "j = length ?w - 1" using Suc.prems by linarith
    show ?thesis
    proof (cases "j + 1 < length pts \<and> fst (pts ! (j + 1)) \<le> bnd")
      case True
      have "length ?w < length pts" using True j by linarith
      have "\<not> fst (pts ! length ?w) \<le> bnd" by (rule nth_length_takeWhile) fact
      with True j have "length ?w = 0" by (cases "length ?w") auto
      then have "\<not> fst (pts ! 0) \<le> bnd" using \<open>\<not> fst (pts ! length ?w) \<le> bnd\<close> by simp
      moreover have "fst (pts ! 0) \<le> fst (pts ! (j + 1))"
        using sorted_nth_mono[OF assms(1), of 0 "j + 1"] True nth_map[of 0 pts fst] by (cases pts) auto
      ultimately show ?thesis using True by linarith
    next
      case False
      then have "advance bnd pts j = j" by (subst advance.simps) (simp only: if_False)
      with j show ?thesis by simp
    qed
  qed
qed

lemma resample_hold:
  assumes "sorted (List.map fst pts)" "pts \<noteq> []" "sorted gts" "0 \<le> step"
    and "\<forall>gt \<in> set gts. j \<le> length (takeWhile (\<lambda>p. fst p \<le> gt + step / 2) pts) - 1"
  shows "resample step pts j gts = List.map (hold_at step pts) gts"
  using assms(3,5)
proof (induction gts arbitrary: j)
  case (Cons gt gts)
  let ?w = "\<lambda>gt. takeWhile (\<lambda>p. fst p \<le> gt + step / 2) pts"
  let ?j = "length (?w gt) - 1"
  have adv: "advance (gt + step / 2) pts j = ?j" using Cons.prems(2) by (simp add: advance_takeWhile[OF assms(1)])
  have "pts ! ?j = (if ?w gt = [] then hd pts else last (?w gt))"
  proof (cases "?w gt")
    case Nil
    then show ?thesis using assms(2) by (simp add: hd_conv_nth)
  next
    case (Cons a list)
    then have "?j < length (?w gt)" by simp
    then have "pts ! ?j = ?w gt ! ?j" by (rule takeWhile_nth[symmetric])
    then show ?thesis using Cons by (simp add: last_conv_nth)
  qed
  then have hd: "(if \<bar>fst (pts ! ?j) - gt\<bar> \<le> step then Some (snd (pts ! ?j)) else None) = hold_at step pts gt"
    by (simp add: hold_at_def filter_takeWhile[OF assms(1)] Let_def)
  have "length (?w gt) \<le> length (?w gt')" if "gt' \<in> set gts" for gt'
  proof -
    have "gt \<le> gt'" using Cons.prems(1) that by simp
    then show ?thesis by (induction pts) auto
  qed
  then have "\<forall>gt' \<in> set gts. ?j \<le> length (?w gt') - 1" using diff_le_mono by blast
  with Cons.IH[of ?j] Cons.prems(1) have "resample step pts ?j gts = List.map (hold_at step pts) gts" by simp
  with hd show ?case unfolding resample.simps Let_def adv list.map by simp
qed simp

lemma length_resample [simp]: "length (resample step pts j gts) = length gts"
  by (induction gts arbitrary: j) (simp_all add: Let_def)

lemma grid_nth: "k < n \<Longrightarrow> grid latest step n ! k = latest - step * (of_nat n - 1 - of_nat k)"
  by (simp add: grid_def)

lemma grid_sorted:
  assumes "0 \<le> step"
  shows "sorted (grid latest step n)"
  unfolding sorted_iff_nth_mono
proof (intro allI impI)
  fix i j assume ij: "i \<le> j" "j < length (grid latest step n)"
  then have "j < n" by (simp add: grid_def)
  have "step * (of_nat n - 1 - of_nat j) \<le> step * (of_nat n - 1 - of_nat i)"
    by (rule mult_left_mono[OF _ assms]) (use ij in simp)
  with ij \<open>j < n\<close> show "grid latest step n ! i \<le> grid latest step n ! j" by (simp add: grid_nth)
qed

lemma length_pod_vector: "pod_vector latest step pts = Some v \<Longrightarrow> length v = GRID_N"
  by (auto simp: pod_vector_def Let_def grid_def split: if_splits)

lemma to_vectors_mem: "(p, v) \<in> set (to_vectors latest step per_pod) \<longleftrightarrow>
    (\<exists>pts. (p, pts) \<in> set per_pod \<and> pod_vector latest step pts = Some v)"
proof -
  have "(Some (p, v) = map_option (Pair (fst x)) (pod_vector latest step (snd x))) \<longleftrightarrow>
      fst x = p \<and> pod_vector latest step (snd x) = Some v" for x
    by (cases "pod_vector latest step (snd x)") auto
  then show ?thesis by (force simp: to_vectors_def image_iff split_beta)
qed

lemma to_vectors_sized: "sized GRID_N (to_vectors latest step per_pod)"
  by (auto simp: sized_def to_vectors_mem length_pod_vector)

lemma to_vectors_keys: "keys (to_vectors latest step per_pod) =
    keys (filter (\<lambda>x. pod_vector latest step (snd x) \<noteq> None) per_pod)"
  by (induction per_pod) (auto simp: to_vectors_def somes_def split: option.split)

lemma to_vectors_distinct: "distinct (keys per_pod) \<Longrightarrow> distinct (keys (to_vectors latest step per_pod))"
  by (simp add: to_vectors_keys distinct_map_filter)

section \<open>Lemmas: collecting\<close>

definition series_of :: "(string \<Rightarrow> real option) \<Rightarrow> window \<Rightarrow> string \<Rightarrow> pod \<Rightarrow> points \<Rightarrow> bool" where
  "series_of fromiso window s p pts \<longleftrightarrow>
     (\<exists>key samples. (key, samples) \<in> set window \<and> last (py_split (CHR ''/'') key) = s \<and> py_split (CHR ''/'') key ! 1 = p \<and>
        points_of fromiso samples = Ret pts) \<and>
     MIN_COVERAGE \<le> length pts \<and> sorted (List.map fst pts)"

definition series_ok :: "(string \<Rightarrow> real option) \<Rightarrow> window \<Rightarrow> series \<times> real \<Rightarrow> bool" where
  "series_ok fromiso window acc \<longleftrightarrow> (\<forall>s. distinct (keys (fst acc s)) \<and>
     (\<forall>(p, pts) \<in> set (fst acc s). series_of fromiso window s p pts \<and> fst (last pts) \<le> snd acc))"

lemma points_sorted: "points_of fromiso samples = Ret pts \<Longrightarrow> sorted (List.map fst pts)"
  by (auto simp: points_of_def outcome_simps sorted_map intro!: sorted_wrt_mono_rel[OF _ sorted_sort] simp: less_eq_prod_def)

lemma update_mem: "(k', x) \<in> set (AList.update k v d) \<Longrightarrow> (k', x) = (k, v) \<or> (k', x) \<in> set d"
  by (induction d) (auto split: if_splits)

lemma add_series_ok:
  assumes "series_ok fromiso window acc" "add_series fromiso wanted entry acc = Ret acc'" "entry \<in> set window"
  shows "series_ok fromiso window acc'"
proof (cases "acc' = acc")
  case False
  define key where "key = py_split (CHR ''/'') (fst entry)"
  obtain pts where pts: "points_of fromiso (snd entry) = Ret pts" "MIN_COVERAGE \<le> length pts"
    and acc': "acc' = ((fst acc)(last key := AList.update (key ! 1) pts (fst acc (last key))), max (snd acc) (fst (last pts)))"
    using assms(2) False by (auto simp: add_series_def Let_def outcome_simps key_def split: if_splits)
  have "series_of fromiso window (last key) (key ! 1) pts"
    using pts points_sorted[OF pts(1)] assms(3) unfolding series_of_def key_def by (metis prod.collapse)
  moreover have "series_of fromiso window s p q \<and> fst (last q) \<le> max (snd acc) (fst (last pts))"
    if "(p, q) \<in> set (fst acc s)" for s p q
    using assms(1) that by (fastforce simp: series_ok_def)
  moreover have "distinct (keys (fst acc s))" for s using assms(1) by (simp add: series_ok_def)
  ultimately show ?thesis
    unfolding series_ok_def acc' by (auto simp: distinct_update dest!: update_mem split: if_splits)
qed (use assms in simp)

lemma collect_ok:
  "set rest \<subseteq> set window \<Longrightarrow> series_ok fromiso window acc \<Longrightarrow> collect fromiso wanted rest acc = Ret acc' \<Longrightarrow>
   series_ok fromiso window acc'"
  by (induction rest arbitrary: acc) (auto simp: outcome_simps dest: add_series_ok)

text \<open>The only exception is a missing value or pod.\<close>

definition only_key_error :: "'a outcome \<Rightarrow> bool" where
  "only_key_error x \<longleftrightarrow> (\<exists>y. x = Ret y) \<or> x = Raise KeyError"

lemma only_key_errorI [simp]: "only_key_error (Ret y)" "only_key_error (Raise KeyError)"
  by (simp_all add: only_key_error_def)

lemma only_key_error_bind: "only_key_error x \<Longrightarrow> (\<And>y. x = Ret y \<Longrightarrow> only_key_error (f y)) \<Longrightarrow> only_key_error (obind x f)"
  by (auto simp: only_key_error_def)

lemma only_key_error_omap: "(\<And>x. x \<in> set xs \<Longrightarrow> only_key_error (f x)) \<Longrightarrow> only_key_error (omap f xs)"
  by (induction xs) (auto intro!: only_key_error_bind)

lemma points_only_key: "only_key_error (points_of fromiso samples)"
  unfolding points_of_def point_of_def
  by (intro only_key_error_bind only_key_error_omap) (auto split: option.split)

lemma add_series_only_key: "only_key_error (add_series fromiso wanted entry acc)"
  unfolding add_series_def Let_def by (auto intro!: only_key_error_bind points_only_key)

lemma collect_only_key: "only_key_error (collect fromiso wanted window acc)"
  by (induction window arbitrary: acc) (auto intro!: only_key_error_bind add_series_only_key)

definition readable :: "(string \<Rightarrow> real option) \<Rightarrow> sample list \<Rightarrow> bool" where
  "readable fromiso samples \<longleftrightarrow> list_all (\<lambda>s. epoch fromiso (sm_ts s) = None \<or> sm_value s \<noteq> None) samples"

lemma points_returns: "readable fromiso samples \<Longrightarrow> \<exists>pts. points_of fromiso samples = Ret pts"
proof -
  assume "readable fromiso samples"
  then have "\<exists>ps. omap (point_of fromiso) samples = Ret ps"
    by (intro omap_total) (auto simp: readable_def list_all_iff point_of_def split: option.split)
  then show ?thesis by (auto simp: points_of_def)
qed

lemma collect_returns:
  "list_all (\<lambda>e. readable fromiso (snd e)) window \<Longrightarrow> \<exists>acc'. collect fromiso wanted window acc = Ret acc'"
proof (induction window arbitrary: acc)
  case (Cons e window)
  then obtain pts where "points_of fromiso (snd e) = Ret pts" using points_returns[of fromiso "snd e"] by auto
  then have "\<exists>acc1. add_series fromiso wanted e acc = Ret acc1" by (simp add: add_series_def Let_def)
  with Cons show ?case by auto
qed simp

section \<open>A small window\<close>

text \<open>Times in unary: a string of \<open>n\<close> characters is the instant \<open>5 * n\<close>.\<close>

definition unary_iso :: "string \<Rightarrow> real option" where
  "unary_iso s = (if s = [] then None else Some (5 * of_nat (length s)))"

definition demo_window :: window where
  "demo_window = [(''ns/logger-p-7/psi_io'',
     List.map (\<lambda>k. \<lparr>sm_ts = replicate (k + 1) (CHR ''x''), sm_value = Some (of_nat k)\<rparr>) [0..<12])]"

definition demo_events :: "event option list" where
  "demo_events = [None, Some \<lparr>en_kind = Some ''anomaly_candidate'', en_pod = Some ''logger-p-7''\<rparr>]"

definition demo_points :: points where
  "demo_points = [(5, 0), (10, 1), (15, 2), (20, 3), (25, 4), (30, 5), (35, 6), (40, 7), (45, 8), (50, 9), (55, 10), (60, 11)]"

lemma demo_collect:
  "collect unary_iso [''psi_io''] demo_window (\<lambda>_. [], 0) = Ret ((\<lambda>_. [])(''psi_io'' := [(''logger-p-7'', demo_points)]), 60)"
proof -
  have "points_of unary_iso (snd (hd demo_window)) = Ret demo_points" by code_simp
  moreover have "py_split (CHR ''/'') ''ns/logger-p-7/psi_io'' = [''ns'', ''logger-p-7'', ''psi_io'']" by code_simp
  ultimately show ?thesis
    by (simp add: demo_window_def add_series_def MIN_COVERAGE_def demo_points_def upt_conv_Cons)
qed

lemma demo_candidates: "candidate_pods demo_events = Ret [''logger-p-7'']"
  by code_simp

lemma demo_vector: "\<exists>v. pod_vector 60 5 demo_points = Some v"
proof -
  let ?v = "resample 5 demo_points 0 (grid 60 5 GRID_N)"
  have v: "?v = List.map (hold_at 5 demo_points) (grid 60 5 GRID_N)"
    by (rule resample_hold) (simp_all add: demo_points_def grid_sorted)
  have "[0..<180] = [0..<168] @ [168..<(180 :: nat)]" using upt_add_eq_append[of 0 168 12] by simp
  then have "grid 60 5 GRID_N = List.map (\<lambda>k. 60 - 5 * (180 - 1 - of_nat k)) [0..<168] @
      List.map (\<lambda>k. 60 - 5 * (180 - 1 - of_nat k)) [168..<(180 :: nat)]"
    by (simp add: grid_def GRID_N_def)
  moreover have "List.map (\<lambda>k. 60 - 5 * (180 - 1 - of_nat k)) [168..<(180 :: nat)] =
      [5, 10, 15, 20, 25, 30, 35, 40, 45, 50, 55, 60 :: real]" by (simp add: upt_conv_Cons)
  moreover have "filter (\<lambda>x. x \<noteq> None) (List.map (hold_at 5 demo_points) [5, 10, 15, 20, 25, 30, 35, 40, 45, 50, 55, 60]) =
      List.map (\<lambda>p. Some (snd p)) demo_points"
    by (simp add: hold_at_def demo_points_def)
  ultimately have "MIN_COVERAGE \<le> length (filter (\<lambda>x. x \<noteq> None) ?v)"
    unfolding v by (simp add: MIN_COVERAGE_def demo_points_def)
  then show ?thesis by (simp add: pod_vector_def Let_def) (simp add: demo_points_def)
qed

lemma demo_inputs_built:
  "\<exists>v. build_inputs unary_iso [''psi_io''] 5 demo_window demo_events = Ret ([(''psi_io'', [(''logger-p-7'', v)])], [''logger-p-7''])"
  using demo_vector by (auto simp: build_inputs_def demo_collect demo_candidates to_vectors_def somes_def)

section \<open>Properties\<close>

text \<open>C10. The inputs of a pass are aligned: whatever the window holds, all vectors of all signals lie on one
  grid of \<open>GRID_N\<close> instants that ends at one common time, one vector per pod. Entry \<open>k\<close> of a vector is the
  pod's last sample not after instant \<open>k\<close> (up to half a step), if it is within a step of it, and 0
  otherwise; the samples are those of an entry of the window for that pod and signal, at least 12, the
  last one at most two steps older than the end of the grid.\<close>

theorem inputs_are_aligned:
  assumes "0 \<le> step" "build_inputs fromiso wanted step window events = Ret (vecs, breach)"
  shows "\<exists>latest. \<forall>(s, vs) \<in> set vecs. distinct (keys vs) \<and> (\<forall>(p, v) \<in> set vs. length v = GRID_N \<and>
    (\<exists>pts. series_of fromiso window s p pts \<and> latest - 2 * step \<le> fst (last pts) \<and> fst (last pts) \<le> latest \<and>
      (\<forall>k < GRID_N. v ! k = (case hold_at step pts (latest - step * (of_nat GRID_N - 1 - of_nat k)) of None \<Rightarrow> 0 | Some y \<Rightarrow> y))))"
proof -
  from assms(2) obtain raw latest where c: "collect fromiso wanted window (\<lambda>_. [], 0) = Ret (raw, latest)"
    and vecs: "vecs = List.map (\<lambda>s. (s, to_vectors latest step (raw s))) wanted"
    by (auto simp: build_inputs_def outcome_simps)
  have ok: "series_ok fromiso window (raw, latest)"
    by (rule collect_ok[OF subset_refl _ c]) (simp add: series_ok_def)
  have "length v = GRID_N \<and> (\<exists>pts. series_of fromiso window s p pts \<and> latest - 2 * step \<le> fst (last pts) \<and> fst (last pts) \<le> latest \<and>
      (\<forall>k < GRID_N. v ! k = (case hold_at step pts (latest - step * (of_nat GRID_N - 1 - of_nat k)) of None \<Rightarrow> 0 | Some y \<Rightarrow> y)))"
    if mem: "(p, v) \<in> set (to_vectors latest step (raw s))" for s p v
  proof -
    from mem obtain pts where pts: "(p, pts) \<in> set (raw s)" "pod_vector latest step pts = Some v" by (auto simp: to_vectors_mem)
    have s: "series_of fromiso window s p pts" "fst (last pts) \<le> latest" using ok pts(1) by (auto simp: series_ok_def)
    then have "pts \<noteq> []" "sorted (List.map fst pts)" by (auto simp: series_of_def MIN_COVERAGE_def)
    then have "v = List.map (\<lambda>gt. case hold_at step pts gt of None \<Rightarrow> 0 | Some y \<Rightarrow> y) (grid latest step GRID_N)"
      using pts(2) resample_hold[of pts "grid latest step GRID_N" step 0] grid_sorted[OF assms(1)] assms(1)
      by (auto simp: pod_vector_def Let_def comp_def split: if_splits)
    moreover have "latest - 2 * step \<le> fst (last pts)" using pts(2) by (auto simp: pod_vector_def split: if_splits)
    ultimately show ?thesis using s by (auto simp: grid_def)
  qed
  moreover have "distinct (keys (to_vectors latest step (raw s)))" for s
    using ok to_vectors_distinct by (simp add: series_ok_def)
  ultimately show ?thesis by (intro exI[of _ latest]) (auto simp: vecs)
qed

theorem inputs_are_aligned_witness:
  "\<exists>v. build_inputs unary_iso [''psi_io''] 5 demo_window demo_events = Ret ([(''psi_io'', [(''logger-p-7'', v)])], [''logger-p-7'']) \<and>
     length v = GRID_N"
proof -
  obtain v where v: "build_inputs unary_iso [''psi_io''] 5 demo_window demo_events = Ret ([(''psi_io'', [(''logger-p-7'', v)])], [''logger-p-7''])"
    using demo_inputs_built by blast
  from inputs_are_aligned[OF _ this] have "length v = GRID_N" by auto
  with v show ?thesis by blast
qed



end
