(* ===== verification/Forecast.thy ===== *)
theory Forecast
  imports Detectors
begin

text \<open>
  The out-of-memory forecaster of \<open>src/correlation/engine/forecast.py\<close>: the segment the slope is
  fitted over and the incipient findings. A pod without a positive limit has none; \<open>limits\<close> is a
  dictionary of reals.
\<close>

definition MIN_FIT_N :: nat where "MIN_FIT_N = 6"

record incipient =
  i_pod :: pod
  i_eta :: real
  i_value :: int
  i_limit :: int
  i_headroom :: real

text \<open>\<open>lo\<close> may be negative and is clamped last, so the arithmetic is on integers.\<close>

definition fit_segment :: "numlib \<Rightarrow> vec \<Rightarrow> nat \<Rightarrow> nat \<Rightarrow> vec" where
  "fit_segment np x tail min_n =
     (let n = int (length x);
          ups = List.map o_idx (filter (\<lambda>o1. o_dir o1 = Up) (cusum_onsets np x));
          lo = (if ups \<noteq> [] then max (n - int tail) (int (last ups)) else n - int tail);
          lo = min lo (n - int min_n)
      in drop (nat (max 0 lo)) x)"

definition incipient_of :: "numlib \<Rightarrow> (pod, real) dict \<Rightarrow> real \<Rightarrow> nat \<Rightarrow> real \<Rightarrow> pod \<times> vec \<Rightarrow> incipient option outcome" where
  "incipient_of np limits horizon_s tail min_frac pv =
     (case pv of (p, x) \<Rightarrow>
       (case map_of limits p of
          None \<Rightarrow> Ret None
        | Some limit \<Rightarrow>
            if limit \<le> 0 then Ret None
            else if x = [] then Ret None
            else
             (let cur = last x in
              if cur < min_frac * limit then Ret None
              else
               (let seg = fit_segment np x tail MIN_FIT_N
                in obind (forecast_to_limit np seg limit (length seg)) (\<lambda>eta.
                   case eta of
                     None \<Rightarrow> Ret None
                   | Some t \<Rightarrow>
                       if t > horizon_s then Ret None
                       else Ret (Some \<lparr>i_pod = p, i_eta = py_round 1 t, i_value = round_half_even cur,
                                       i_limit = round_half_even limit,
                                       i_headroom = py_round 3 (max 0 (1 - cur / limit))\<rparr>))))))"

definition incipient_findings ::
  "numlib \<Rightarrow> (pod, vec) dict \<Rightarrow> (pod, real) dict \<Rightarrow> real \<Rightarrow> nat \<Rightarrow> real \<Rightarrow> incipient list outcome" where
  "incipient_findings np mem_vectors limits horizon_s tail min_frac =
     obind (omap (incipient_of np limits horizon_s tail min_frac) mem_vectors)
       (\<lambda>fs. Ret (sort_key i_eta (concat (List.map (\<lambda>f. case f of None \<Rightarrow> [] | Some y \<Rightarrow> [y]) fs))))"

section \<open>Lemmas\<close>

text \<open>The segment is a suffix of the series: the last \<open>min_n\<close> samples at least, the last \<open>tail\<close> at most.\<close>

lemma fit_segment_suffix:
  assumes "min_n \<le> tail"
  shows "\<exists>k. fit_segment np x tail min_n = drop k x \<and> length x - k \<le> tail \<and> min (length x) min_n \<le> length x - k"
proof -
  let ?ups = "List.map o_idx (filter (\<lambda>o1. o_dir o1 = Up) (cusum_onsets np x))"
  let ?a = "if ?ups \<noteq> [] then max (int (length x) - int tail) (int (last ?ups)) else int (length x) - int tail"
  let ?k = "nat (max 0 (min ?a (int (length x) - int min_n)))"
  have "fit_segment np x tail min_n = drop ?k x" by (simp only: fit_segment_def Let_def)
  moreover have "int (length x) - int tail \<le> ?a" by simp
  then have "length x - ?k \<le> tail" using assms by linarith
  moreover have "min (length x) min_n \<le> length x - ?k" by linarith
  ultimately show ?thesis by blast
qed

lemma fit_segment_last:
  assumes "x \<noteq> []" "0 < min_n" "min_n \<le> tail"
  shows "fit_segment np x tail min_n \<noteq> [] \<and> last (fit_segment np x tail min_n) = last x"
proof -
  obtain k where "fit_segment np x tail min_n = drop k x" "min (length x) min_n \<le> length x - k"
    using fit_segment_suffix[OF assms(3)] by blast
  moreover from this(2) have "k < length x" using assms(1,2) by (cases x) auto
  ultimately show ?thesis by simp
qed

lemma forecast_total: "x \<noteq> [] \<Longrightarrow> \<exists>eta. forecast_to_limit np x limit (length x) = Ret eta"
  by (auto simp: forecast_to_limit_def Let_def py_tail_def)

lemma forecast_eta:
  assumes "forecast_to_limit np x limit (length x) = Ret (Some t)" "x \<noteq> []"
  shows "\<exists>slope. slope = fst (np_polyfit1 np (time_axis (length x)) x) \<and> TINY < slope \<and>
    t = (limit - last x) / slope * DT_S \<and> 0 \<le> (limit - last x) / slope \<and> t \<le> 3600"
  using assms by (auto simp: forecast_to_limit_def Let_def py_tail_def not_le not_less split: if_splits)

lemma incipient_of_total:
  assumes "MIN_FIT_N \<le> tail"
  shows "\<exists>f. incipient_of np limits horizon_s tail min_frac pv = Ret f"
proof (cases pv)
  case (Pair p x)
  show ?thesis
  proof (cases "map_of limits p = None \<or> x = []")
    case False
    then obtain limit where limit: "map_of limits p = Some limit" "x \<noteq> []" by auto
    then have "fit_segment np x tail MIN_FIT_N \<noteq> []"
      using fit_segment_last[of x MIN_FIT_N tail np] assms by (simp add: MIN_FIT_N_def)
    from forecast_total[OF this] obtain eta where "forecast_to_limit np (fit_segment np x tail MIN_FIT_N) limit
        (length (fit_segment np x tail MIN_FIT_N)) = Ret eta" by blast
    then show ?thesis using limit by (auto simp: incipient_of_def Pair Let_def split: option.split)
  qed (auto simp: incipient_of_def Pair split: option.split)
qed

lemma incipient_of_SomeD:
  assumes "incipient_of np limits horizon_s tail min_frac (p, x) = Ret (Some f)" "MIN_FIT_N \<le> tail"
  shows "\<exists>limit slope t. map_of limits p = Some limit \<and> 0 < limit \<and> x \<noteq> [] \<and> min_frac * limit \<le> last x \<and>
     TINY < slope \<and> slope = fst (np_polyfit1 np (time_axis (length (fit_segment np x tail MIN_FIT_N))) (fit_segment np x tail MIN_FIT_N)) \<and>
     last x + slope * (t / DT_S) = limit \<and> 0 \<le> t \<and> t \<le> horizon_s \<and>
     f = \<lparr>i_pod = p, i_eta = py_round 1 t, i_value = round_half_even (last x), i_limit = round_half_even limit,
          i_headroom = py_round 3 (max 0 (1 - last x / limit))\<rparr>"
proof -
  let ?seg = "fit_segment np x tail MIN_FIT_N"
  from assms(1) obtain limit where lim: "map_of limits p = Some limit" "0 < limit" "x \<noteq> []" "min_frac * limit \<le> last x"
    by (auto simp: incipient_of_def Let_def not_le not_less split: option.splits if_splits)
  with assms(1) obtain t where t: "forecast_to_limit np ?seg limit (length ?seg) = Ret (Some t)" "t \<le> horizon_s"
    "f = \<lparr>i_pod = p, i_eta = py_round 1 t, i_value = round_half_even (last x), i_limit = round_half_even limit,
          i_headroom = py_round 3 (max 0 (1 - last x / limit))\<rparr>"
    by (auto simp: incipient_of_def Let_def outcome_simps not_less split: option.splits if_splits)
  have seg: "?seg \<noteq> []" "last ?seg = last x"
    using fit_segment_last[OF lim(3), of MIN_FIT_N tail np] assms(2) by (simp_all add: MIN_FIT_N_def)
  from forecast_eta[OF t(1) seg(1)] obtain slope where
    sl: "slope = fst (np_polyfit1 np (time_axis (length ?seg)) ?seg)" "TINY < slope"
    "t = (limit - last x) / slope * DT_S" "0 \<le> (limit - last x) / slope" using seg(2) by auto
  have "slope \<noteq> 0" using sl(2) by (auto simp: TINY_def)
  then have "slope * (t / DT_S) = limit - last x" unfolding sl(3) by (simp add: DT_S_def)
  then have "last x + slope * (t / DT_S) = limit" by simp
  moreover have "0 \<le> t" unfolding sl(3) by (rule mult_nonneg_nonneg[OF sl(4)]) (simp add: DT_S_def)
  ultimately show ?thesis using lim t sl(1,2) by blast
qed

section \<open>Properties\<close>

text \<open>C30. Every early warning is warranted: the forecaster never raises, sorts its warnings soonest first,
  and each warning is about a pod with a positive limit whose working set is already past the
  fraction of that limit and whose fitted line from the last sample reaches the limit within the
  horizon; the ETA is that time, and the headroom lies between 0 and 1.\<close>

theorem incipient_findings_warranted:
  assumes "MIN_FIT_N \<le> tail" "0 \<le> min_frac"
  shows "\<exists>fs. incipient_findings np vs limits horizon_s tail min_frac = Ret fs \<and>
    sorted_wrt (\<lambda>f f'. i_eta f \<le> i_eta f') fs \<and>
    (\<forall>f \<in> set fs. \<exists>x limit slope t. (i_pod f, x) \<in> set vs \<and> map_of limits (i_pod f) = Some limit \<and> 0 < limit \<and>
       min_frac * limit \<le> last x \<and> TINY < slope \<and> last x + slope * (t / DT_S) = limit \<and>
       slope = fst (np_polyfit1 np (time_axis (length (fit_segment np x tail MIN_FIT_N))) (fit_segment np x tail MIN_FIT_N)) \<and>
       0 \<le> t \<and> t \<le> horizon_s \<and> i_eta f = py_round 1 t \<and> 0 \<le> i_headroom f \<and> i_headroom f \<le> 1)"
proof -
  have "\<exists>os. omap (incipient_of np limits horizon_s tail min_frac) vs = Ret os"
    by (rule omap_total) (rule incipient_of_total[OF assms(1)])
  then obtain os where os: "omap (incipient_of np limits horizon_s tail min_frac) vs = Ret os" ..
  let ?fs = "sort_key i_eta (concat (List.map (\<lambda>f. case f of None \<Rightarrow> [] | Some y \<Rightarrow> [y]) os))"
  have "\<exists>x limit slope t. (i_pod f, x) \<in> set vs \<and> map_of limits (i_pod f) = Some limit \<and> 0 < limit \<and>
       min_frac * limit \<le> last x \<and> TINY < slope \<and> last x + slope * (t / DT_S) = limit \<and>
       slope = fst (np_polyfit1 np (time_axis (length (fit_segment np x tail MIN_FIT_N))) (fit_segment np x tail MIN_FIT_N)) \<and>
       0 \<le> t \<and> t \<le> horizon_s \<and> i_eta f = py_round 1 t \<and> 0 \<le> i_headroom f \<and> i_headroom f \<le> 1"
    if "f \<in> set ?fs" for f
  proof -
    from that have "Some f \<in> set os" by (auto split: option.splits)
    from omap_memD[OF os this] obtain p x where px: "(p, x) \<in> set vs"
      "incipient_of np limits horizon_s tail min_frac (p, x) = Ret (Some f)" by auto
    from incipient_of_SomeD[OF px(2) assms(1)] obtain limit slope t where
      f: "map_of limits p = Some limit" "0 < limit" "min_frac * limit \<le> last x" "TINY < slope"
      "slope = fst (np_polyfit1 np (time_axis (length (fit_segment np x tail MIN_FIT_N))) (fit_segment np x tail MIN_FIT_N))"
      "last x + slope * (t / DT_S) = limit" "0 \<le> t" "t \<le> horizon_s"
      and rec: "f = \<lparr>i_pod = p, i_eta = py_round 1 t, i_value = round_half_even (last x),
        i_limit = round_half_even limit, i_headroom = py_round 3 (max 0 (1 - last x / limit))\<rparr>"
      by (elim exE conjE) (rule that; assumption)
    have "0 \<le> min_frac * limit" using assms(2) f(2) by simp
    then have "0 \<le> last x / limit" using f(2,3) by simp
    then have "0 \<le> i_headroom f \<and> i_headroom f \<le> 1"
      by (auto simp: rec intro!: py_round_nonneg py_round_le_1)
    moreover have "i_pod f = p" "i_eta f = py_round 1 t" by (simp_all add: rec)
    ultimately show ?thesis using f px(1) by (intro exI[of _ x] exI[of _ limit] exI[of _ slope] exI[of _ t]) simp
  qed
  moreover have "sorted_wrt (\<lambda>f f'. i_eta f \<le> i_eta f') ?fs" by (rule sort_key_sorted_wrt)
  ultimately show ?thesis by (auto simp: incipient_findings_def os)
qed

theorem incipient_findings_warranted_witness:
  "\<exists>fs. incipient_findings ref_num [(''leaky'', [1, 2, 3, 4, 5, 6])] [(''leaky'', 10)] 900 24 (1 / 2) = Ret fs"
  using incipient_findings_warranted[of 24 "1 / 2" ref_num "[(''leaky'', [1, 2, 3, 4, 5, 6])]" "[(''leaky'', 10)]" 900]
  by (auto simp: MIN_FIT_N_def)

text \<open>The slope is fitted over a recent suffix: the segment ends at the last sample, has at most \<open>tail\<close>
  and at least six samples (or all there are), so neither a flat history nor a single jump decides.\<close>

theorem fit_segment_recent:
  assumes "x \<noteq> []" "0 < min_n" "min_n \<le> tail"
  shows "\<exists>k. fit_segment np x tail min_n = drop k x \<and> last (fit_segment np x tail min_n) = last x \<and>
    length (fit_segment np x tail min_n) \<le> tail \<and> min (length x) min_n \<le> length (fit_segment np x tail min_n)"
  using fit_segment_suffix[OF assms(3), of np x] fit_segment_last[OF assms, of np] by auto

theorem fit_segment_recent_witness:
  "\<exists>k. fit_segment ref_num [1, 2, 3] 24 6 = drop k [1, 2, 3] \<and> min 3 6 \<le> length (fit_segment ref_num [1, 2, 3] 24 6)"
  using fit_segment_recent[of "[1, 2, 3]" 6 24 ref_num] by auto

end
