(* ===== verification/Service.thy ===== *)
theory Service
  imports Graph_Merge Time_Grid Forecast
begin

text \<open>
  The correlation service, \<open>src/correlation/service.py\<close>: one memory and one witness per resource signal,
  the pass of every signal over the aligned inputs, the merge of what they render, the forecast, and
  what is served at \<open>/graph\<close>. The environment variables are a record; fetching is an input of a step
  that may fail; the HTTP handler and the thread are not modelled.
\<close>

record settings =
  sv_signals :: "string list"
  sv_fsignal :: string
  sv_flimit :: string
  sv_horizon :: real
  sv_min_frac :: real
  sv_copr_min :: real
  sv_window :: nat
  sv_recent :: nat
  sv_step :: real
  sv_db :: string
  sv_storage :: "workload list"
  sv_edge :: config

definition default_settings :: settings where
  "default_settings = \<lparr>sv_signals = [''psi_io'', ''psi_cpu'', ''psi_mem''], sv_fsignal = ''mem'', sv_flimit = ''mem_limit'',
     sv_horizon = 900, sv_min_frac = 0.5, sv_copr_min = 0.10, sv_window = 36, sv_recent = 24, sv_step = 5,
     sv_db = ''/var/lib/skn/memory/l3-memory.db'',
     sv_storage = [''cooling-monitor'', ''dcim-bridge'', ''log-archiver'', ''timescaledb''], sv_edge = default_config\<rparr>"

definition SIGNAL_SOURCES :: "(string, string) dict" where
  "SIGNAL_SOURCES = [(''psi_io'', ''io_write''), (''psi_cpu'', ''cpu'')]"

definition primary :: "settings \<Rightarrow> string option" where
  "primary st = (case sv_signals st of [] \<Rightarrow> None | s # _ \<Rightarrow> Some s)"

text \<open>Only the disk signal has a stable topology: the others have no prior and no floor.\<close>

definition config_for :: "settings \<Rightarrow> string \<Rightarrow> config" where
  "config_for st sig =
     (let structural = (sig = ''psi_io''); cfg = sv_edge st
      in cfg\<lparr>c_signal := sig, c_prior := (if structural then c_prior cfg else 0),
             c_floor_frac := (if structural then c_floor_frac cfg else 0)\<rparr>)"

text \<open>\<open>os.path.splitext\<close>: the last dot of the last component, unless only dots precede it.\<close>

definition splitext :: "string \<Rightarrow> string \<times> string" where
  "splitext p =
     (let e = takeWhile (\<lambda>c. c \<noteq> CHR ''.'' \<and> c \<noteq> CHR ''/'') (rev p); r = drop (length e) (rev p)
      in case r of
           c # b \<Rightarrow> (if c = CHR ''.'' \<and> list_ex (\<lambda>x. x \<noteq> CHR ''.'') (takeWhile (\<lambda>x. x \<noteq> CHR ''/'') b)
                     then (rev b, CHR ''.'' # rev e) else (p, []))
         | [] \<Rightarrow> (p, []))"

definition db_for :: "settings \<Rightarrow> string \<Rightarrow> string" where
  "db_for st sig =
     (if Some sig = primary st then sv_db st
      else (case splitext (sv_db st) of (base, ext) \<Rightarrow> base @ ''.'' @ sig @ ext))"

definition wanted :: "settings \<Rightarrow> string list" where
  "wanted st = remdups (sv_signals st @ List.map snd SIGNAL_SOURCES @ [sv_fsignal st, sv_flimit st])"

section \<open>The witness of a signal\<close>

definition hot_pod :: "settings \<Rightarrow> pod \<times> vec \<Rightarrow> bool outcome" where
  "hot_pod st pv =
     (case py_tail 6 (snd pv) of [] \<Rightarrow> Raise ValueError | x # xs \<Rightarrow> Ret (fold max xs x > sv_copr_min st))"

definition witness_for :: "settings \<Rightarrow> string \<Rightarrow> vectors \<Rightarrow> witness outcome" where
  "witness_for st sig vectors =
     (let pod_pairs = List.map (\<lambda>(a, b). {a, b}) (pairs (keys vectors));
          disk = List.map (\<lambda>(a, b). {a, b})
                   (filter (\<lambda>(a, b). stable_workload a \<in> set (sv_storage st) \<and> stable_workload b \<in> set (sv_storage st))
                     (pairs (keys vectors)))
      in obind (omap (\<lambda>pv. obind (hot_pod st pv) (\<lambda>h. Ret (fst pv, h))) vectors) (\<lambda>hs.
         Ret \<lparr>ebpf_edges = [],
              psi_copressure = List.map (\<lambda>(a, b). {a, b}) (pairs (List.map fst (filter snd hs))),
              shared_relation = (if sig = ''psi_io'' then disk else []),
              same_node = (if sig = ''psi_io'' then [] else pod_pairs)\<rparr>))"

section \<open>The pass of one signal\<close>

record 'g libs =
  lb_np :: numlib
  lb_nx :: "'g nxlib"
  lb_digest :: "fingerprint \<Rightarrow> string"
  lb_iso :: "string \<Rightarrow> real option"

definition thresholds :: "config \<Rightarrow> memory \<Rightarrow> vectors \<Rightarrow> baselines" where
  "thresholds cfg m vectors = List.map (\<lambda>(p, _). (p, baseline_threshold cfg (mm_baselines m) (stable_workload p))) vectors"

text \<open>The database is committed before the graph is rendered, so it keeps what it learned even if
  rendering fails.\<close>

definition signal_pass ::
  "settings \<Rightarrow> 'g libs \<Rightarrow> (string, vectors) dict \<Rightarrow> pod list \<Rightarrow> real \<Rightarrow> real \<Rightarrow> string \<Rightarrow> memory \<Rightarrow> memory \<times> rgraph outcome" where
  "signal_pass st lb vecs breach ts now sig m =
     (let cfg = config_for st sig;
          vectors = dict_get vecs sig [];
          wvs = (case map_of SIGNAL_SOURCES sig of None \<Rightarrow> [] | Some src \<Rightarrow> dict_get vecs src [])
      in case obind (witness_for st sig vectors) (\<lambda>w.
                obind (run_pass (lb_np lb) (lb_nx lb) vectors w breach [] (sv_window st) wvs
                         (Some (thresholds cfg m vectors)) (sv_recent st)) (\<lambda>g. Ret (w, g))) of
           Ret (w, g) \<Rightarrow>
             (case observe_memory (lb_np lb) (lb_digest lb) cfg g vectors (Some w) ts m of
                (verdict, m') \<Rightarrow> (m', render (lb_nx lb) cfg m' g vectors now verdict))
         | Raise e \<Rightarrow> (m, Raise e)
         | Diverge \<Rightarrow> (m, Diverge))"

type_synonym memories = "(string, memory) dict"

fun signal_passes ::
  "settings \<Rightarrow> 'g libs \<Rightarrow> (string, vectors) dict \<Rightarrow> pod list \<Rightarrow> real \<Rightarrow> real \<Rightarrow> string list \<Rightarrow> memories \<Rightarrow> per_signal \<Rightarrow>
   memories \<times> per_signal outcome" where
  "signal_passes st lb vecs breach ts now [] mems rendered = (mems, Ret rendered)"
| "signal_passes st lb vecs breach ts now (sig # sigs) mems rendered =
     (if dict_get vecs sig [] = [] then signal_passes st lb vecs breach ts now sigs mems rendered
      else (case map_of mems sig of
              None \<Rightarrow> (mems, Raise KeyError)
            | Some m \<Rightarrow>
                (case signal_pass st lb vecs breach ts now sig m of
                   (m', Ret g) \<Rightarrow> signal_passes st lb vecs breach ts now sigs (AList.update sig m' mems) (AList.update sig g rendered)
                 | (m', Raise e) \<Rightarrow> (AList.update sig m' mems, Raise e)
                 | (m', Diverge) \<Rightarrow> (AList.update sig m' mems, Diverge))))"

section \<open>The service\<close>

datatype served = Graph mgraph "incipient list" | Failed py_error

record service =
  s_mem :: memories
  s_graph :: served

definition empty_merged :: "settings \<Rightarrow> mgraph" where
  "empty_merged st = \<lparr>mg_findings = [], mg_edges = [], mg_ranking = [], mg_blast = [],
     mg_meta = \<lparr>mg_signals = sv_signals st, mg_stats = None, mg_case = None, mg_label = None, mg_pods = 0, mg_active = 0,
       mg_accepted = 0\<rparr>\<rparr>"

definition memory_limits :: "vectors \<Rightarrow> (pod, real) dict" where
  "memory_limits lim_vec = List.map (\<lambda>(p, v). (p, last v)) (filter (\<lambda>(p, v). v \<noteq> [] \<and> last v > 0) lim_vec)"

definition DEFAULT_TAIL :: nat where "DEFAULT_TAIL = 24"

definition published :: "settings \<Rightarrow> 'g libs \<Rightarrow> (string, vectors) dict \<Rightarrow> per_signal \<Rightarrow> (mgraph \<times> incipient list) outcome" where
  "published st lb vecs rendered =
     obind (if rendered \<noteq> [] then merge_graphs (lb_nx lb) rendered (primary st) else Ret (empty_merged st)) (\<lambda>m.
     obind (incipient_findings (lb_np lb) (dict_get vecs (sv_fsignal st) []) (memory_limits (dict_get vecs (sv_flimit st) []))
              (sv_horizon st) DEFAULT_TAIL (sv_min_frac st)) (\<lambda>inc.
     Ret (m, inc)))"

text \<open>One round of \<open>loop\<close>; a round that does not return leaves the old graph served.\<close>

definition service_round ::
  "settings \<Rightarrow> 'g libs \<Rightarrow> (window \<times> event option list) outcome \<Rightarrow> real \<Rightarrow> real \<Rightarrow> service \<Rightarrow> service" where
  "service_round st lb feed ts now s =
     (case obind feed (\<lambda>(w, evs). build_inputs (lb_iso lb) (wanted st) (sv_step st) w evs) of
        Raise e \<Rightarrow> s\<lparr>s_graph := Failed e\<rparr>
      | Diverge \<Rightarrow> s
      | Ret (vecs, breach) \<Rightarrow>
         (case signal_passes st lb vecs breach ts now (sv_signals st) (s_mem s) [] of
            (mems, out) \<Rightarrow>
              (case obind out (published st lb vecs) of
                 Ret (m, inc) \<Rightarrow> \<lparr>s_mem = mems, s_graph = Graph m inc\<rparr>
               | Raise e \<Rightarrow> \<lparr>s_mem = mems, s_graph = Failed e\<rparr>
               | Diverge \<Rightarrow> s\<lparr>s_mem := mems\<rparr>)))"

text \<open>Start: every signal's database is opened, and what the memories hold is served.\<close>

definition boot_memories :: "settings \<Rightarrow> bool \<Rightarrow> real \<Rightarrow> (string \<Rightarrow> memory) \<Rightarrow> memories" where
  "boot_memories st fam now disk =
     dict_of (List.map (\<lambda>s. (s, open_memory (config_for st s) fam now (disk (db_for st s)))) (sv_signals st))"

definition boot_graph :: "settings \<Rightarrow> 'g libs \<Rightarrow> real \<Rightarrow> memories \<Rightarrow> mgraph outcome" where
  "boot_graph st lb now mems =
     obind (omap (\<lambda>(s, m). obind (bootstrap_graph (lb_nx lb) (config_for st s) now m) (\<lambda>g. Ret (s, g))) mems) (\<lambda>ps.
     merge_graphs (lb_nx lb) ps (primary st))"

section \<open>Lemmas: databases\<close>

lemma splitext_join:
  assumes "splitext p = (b, e)"
  shows "b @ e = p"
proof -
  let ?e = "takeWhile (\<lambda>c. c \<noteq> CHR ''.'' \<and> c \<noteq> CHR ''/'') (rev p)"
  obtain r where r: "drop (length ?e) (rev p) = r" by blast
  have "?e @ r = rev p" unfolding r[symmetric] dropWhile_eq_drop[symmetric] by (rule takeWhile_dropWhile_id)
  then have p: "rev r @ rev ?e = p" by (metis rev_append rev_rev_ident)
  show ?thesis
  proof (cases r)
    case (Cons c cs)
    then show ?thesis using assms p unfolding splitext_def Let_def r by (auto split: if_splits)
  qed (use assms in \<open>simp add: splitext_def Let_def r\<close>)
qed

lemma db_for_inj: "db_for st s = db_for st s' \<longleftrightarrow> s = s'"
proof
  assume eq: "db_for st s = db_for st s'"
  obtain b e where be: "splitext (sv_db st) = (b, e)" by (cases "splitext (sv_db st)")
  have "sv_db st = b @ e" using splitext_join[OF be] by simp
  then have "b @ ''.'' @ x @ e \<noteq> sv_db st" for x by simp
  then show "s = s'" using eq by (auto simp: db_for_def be dest: sym split: if_splits) (metis option.inject)?
qed simp

definition disk_of :: "settings \<Rightarrow> memories \<Rightarrow> string \<Rightarrow> memory" where
  "disk_of st mems path =
     (case filter (\<lambda>(k, m). db_for st k = path) mems of [] \<Rightarrow> fresh_memory path | (k, m) # _ \<Rightarrow> m)"

lemma disk_of_db: "map_of mems s = Some m \<Longrightarrow> disk_of st mems (db_for st s) = m"
proof (induction mems)
  case (Cons km mems)
  then show ?case by (cases km) (auto simp: disk_of_def db_for_inj split: if_splits)
qed simp

lemma map_of_dict_of_self:
  "s \<in> set xs \<Longrightarrow> map_of (dict_of (List.map (\<lambda>x. (x, f x)) xs)) s = Some (f s)"
proof -
  assume "s \<in> set xs"
  then have "s \<in> fst ` set (List.map (\<lambda>x. (x, f x)) xs)" by force
  from dict_of_get[OF this] obtain v where v: "map_of (dict_of (List.map (\<lambda>x. (x, f x)) xs)) s = Some v" by blast
  from dict_of_memD[OF this] have "v = f s" by auto
  with v show ?thesis by simp
qed

section \<open>Lemmas: one signal\<close>

definition settings_ok :: "settings \<Rightarrow> bool" where
  "settings_ok st \<longleftrightarrow> config_ok (sv_edge st) \<and> 0 \<le> sv_step st \<and> 0 \<le> sv_min_frac st \<and> [] \<notin> set (sv_signals st) \<and>
     sv_signals st \<noteq> [] \<and> distinct (sv_signals st)"

lemma default_settings_ok: "settings_ok default_settings"
  using default_config_ok by (simp add: settings_ok_def default_settings_def)

lemma config_for_ok: "settings_ok st \<Longrightarrow> config_ok (config_for st s)"
  by (auto simp: settings_ok_def config_ok_def config_for_def Let_def)

definition inputs_sized :: "(string, vectors) dict \<Rightarrow> bool" where
  "inputs_sized vecs \<longleftrightarrow> (\<forall>s. sized GRID_N (dict_get vecs s []))"

lemma map_of_keyed: "map_of (List.map (\<lambda>s. (s, f s)) xs) s = (if s \<in> set xs then Some (f s) else None)"
  by (induction xs) auto

lemma build_inputs_sized:
  assumes "build_inputs fromiso ws step w evs = Ret (vecs, breach)"
  shows "inputs_sized vecs"
proof -
  obtain raw latest where "vecs = List.map (\<lambda>s. (s, to_vectors latest step (raw s))) ws"
    using assms by (auto simp: build_inputs_def outcome_simps)
  then show ?thesis
    by (auto simp: inputs_sized_def dict_get_def map_of_keyed to_vectors_sized sized_def[of _ "[]"] split: option.split)
qed

lemma witness_returns:
  assumes "sized n vectors" "0 < n"
  shows "\<exists>w. witness_for st sig vectors = Ret w"
proof -
  have "\<exists>h. obind (hot_pod st pv) (\<lambda>h. Ret (fst pv, h)) = Ret h" if "pv \<in> set vectors" for pv
  proof -
    have "snd pv \<noteq> []" using that assms by (auto simp: sized_def)
    then have "py_tail 6 (snd pv) \<noteq> []" using length_py_tail[of 6 "snd pv"] by (metis gr0I length_0_conv min_def zero_neq_numeral)
    then show ?thesis by (auto simp: hot_pod_def neq_Nil_conv)
  qed
  then have "\<exists>hs. omap (\<lambda>pv. obind (hot_pod st pv) (\<lambda>h. Ret (fst pv, h))) vectors = Ret hs" by (rule omap_total)
  then show ?thesis by (auto simp: witness_for_def Let_def)
qed

lemma witness_for_node:
  assumes "witness_for st sig vectors = Ret w" "sig \<noteq> ''psi_io''"
  shows "\<not> couples w a b"
  using assms by (auto simp: witness_for_def Let_def outcome_simps couples_iff)

lemma signal_pass_returns:
  assumes "digraph_laws (lb_nx lb)" "corr_bounded (lb_np lb)" "settings_ok st" "inputs_sized vecs"
    and "tables_ok (config_for st sig) m"
  shows "\<exists>m' g. signal_pass st lb vecs breach ts now sig m = (m', Ret g) \<and> tables_ok (config_for st sig) m' \<and>
    (\<forall>e \<in> set (rg_edges g). \<bar>e_r e\<bar> \<le> 1 \<and> x_state e \<noteq> None)"
proof -
  let ?cfg = "config_for st sig" and ?vs = "dict_get vecs sig []"
  let ?wvs = "case map_of SIGNAL_SOURCES sig of None \<Rightarrow> [] | Some src \<Rightarrow> dict_get vecs src []"
  have n: "0 < GRID_N" by (simp add: GRID_N_def)
  have s: "sized GRID_N ?vs" "sized GRID_N ?wvs"
    using assms(4) by (auto simp: inputs_sized_def sized_def[of _ "[]"] split: option.split)
  obtain w where w: "witness_for st sig ?vs = Ret w" using witness_returns[OF s(1) n] by blast
  obtain g where g: "run_pass (lb_np lb) (lb_nx lb) ?vs w breach [] (sv_window st) ?wvs (Some (thresholds ?cfg m ?vs)) (sv_recent st) = Ret g"
    "\<forall>e \<in> set (g_edges g). \<bar>e_r e\<bar> \<le> 1" using run_pass_returns[OF assms(1,2) n s] by blast
  obtain v m' where m': "observe_memory (lb_np lb) (lb_digest lb) ?cfg g ?vs (Some w) ts m = (v, m')"
    by (cases "observe_memory (lb_np lb) (lb_digest lb) ?cfg g ?vs (Some w) ts m")
  have tab: "tables_ok ?cfg m'"
    using observe_memory_tables[OF config_for_ok[OF assms(3)] assms(5) g(2), of "lb_np lb" "lb_digest lb" ?vs "Some w" ts]
    by (simp add: m')
  obtain rg where rg: "render (lb_nx lb) ?cfg m' g ?vs now v = Ret rg" "\<forall>x \<in> set (rg_edges rg). \<bar>e_r x\<bar> \<le> 1"
    "rg_edges rg = render_edges ?cfg (mm_edges m') ?vs now (g_edges g)"
    using render_returns[OF assms(1) tab g(2), of ?vs now v] by blast
  have "x_state x \<noteq> None" if "x \<in> set (rg_edges rg)" for x
    by (rule render_edges_stated[OF _ that[unfolded rg(3)]])
      (use observed_edge_row[of _ g "lb_np lb" "lb_digest lb" ?cfg ?vs "Some w" ts m] in \<open>simp add: m'\<close>)
  with rg(1,2) tab show ?thesis by (auto simp: signal_pass_def Let_def w g(1) m')
qed

section \<open>Lemmas: all signals\<close>

definition mems_ok :: "settings \<Rightarrow> memories \<Rightarrow> bool" where
  "mems_ok st mems \<longleftrightarrow> (\<forall>s \<in> set (sv_signals st). \<exists>m. map_of mems s = Some m) \<and>
     (\<forall>s m. map_of mems s = Some m \<longrightarrow> tables_ok (config_for st s) m)"

lemma mems_ok_get:
  assumes "mems_ok st mems" "s \<in> set (sv_signals st)"
  obtains m where "map_of mems s = Some m" "tables_ok (config_for st s) m"
proof -
  have h: "\<forall>s \<in> set (sv_signals st). \<exists>m. map_of mems s = Some m"
    "\<forall>s m. map_of mems s = Some m \<longrightarrow> tables_ok (config_for st s) m"
    by (rule conjunct1[OF assms(1)[unfolded mems_ok_def]], rule conjunct2[OF assms(1)[unfolded mems_ok_def]])
  from bspec[OF h(1) assms(2)] h(2) that show thesis by blast
qed

lemma mems_ok_update: "mems_ok st mems \<Longrightarrow> tables_ok (config_for st s) m \<Longrightarrow> mems_ok st (AList.update s m mems)"
  by (simp add: mems_ok_def)

definition signals_stated :: "per_signal \<Rightarrow> bool" where
  "signals_stated ps \<longleftrightarrow> signals_sound ps \<and> (\<forall>(s, g) \<in> set ps. \<forall>e \<in> set (rg_edges g). x_state e \<noteq> None)"

lemma signals_stated_update:
  "signals_stated ps \<Longrightarrow> s \<noteq> [] \<Longrightarrow> \<forall>e \<in> set (rg_edges g). \<bar>e_r e\<bar> \<le> 1 \<and> x_state e \<noteq> None \<Longrightarrow>
   signals_stated (AList.update s g ps)"
  by (fastforce simp: signals_stated_def signals_sound_def dest!: update_mem)

lemma signal_passes_return:
  assumes "digraph_laws (lb_nx lb)" "corr_bounded (lb_np lb)" "settings_ok st" "inputs_sized vecs"
    and "set sigs \<subseteq> set (sv_signals st)" "mems_ok st mems" "signals_stated ps"
  shows "\<exists>mems' ps'. signal_passes st lb vecs breach ts now sigs mems ps = (mems', Ret ps') \<and> mems_ok st mems' \<and> signals_stated ps'"
  using assms(5-7)
proof (induction sigs arbitrary: mems ps)
  case (Cons sig sigs)
  show ?case
  proof (cases "dict_get vecs sig [] = []")
    case False
    obtain m where m: "map_of mems sig = Some m" "tables_ok (config_for st sig) m"
      using mems_ok_get[OF Cons.prems(2), of sig] Cons.prems(1) by auto
    from signal_pass_returns[OF assms(1-4) m(2), of breach ts now] obtain m' g where
      g: "signal_pass st lb vecs breach ts now sig m = (m', Ret g)" "tables_ok (config_for st sig) m'"
        "\<forall>e \<in> set (rg_edges g). \<bar>e_r e\<bar> \<le> 1 \<and> x_state e \<noteq> None" by blast
    have "sig \<noteq> []" using Cons.prems(1) assms(3) by (auto simp: settings_ok_def)
    with Cons.IH[OF _ mems_ok_update[OF Cons.prems(2) g(2)] signals_stated_update[OF Cons.prems(3) _ g(3)]] Cons.prems(1)
    show ?thesis using False m g(1) by simp
  qed (use Cons in simp)
qed simp

lemma tag_edge_state [simp]: "x_state (tag_edge s e) = x_state e"
  by (simp add: tag_edge_def redge.defs)

text \<open>A merged graph fit to be served: every edge has a state, and every root owns an edge and answers a finding.\<close>

definition graph_ok :: "mgraph \<Rightarrow> bool" where
  "graph_ok m \<longleftrightarrow> (\<forall>e \<in> set (mg_edges m). x_state e \<noteq> None) \<and>
     (\<forall>r \<in> set (mg_ranking m). rc_pod r \<in> e_src ` set (mg_edges m) \<and> mg_findings m \<noteq> [])"

lemma graph_ok_empty: "mg_edges m = [] \<Longrightarrow> mg_ranking m = [] \<Longrightarrow> graph_ok m"
  by (simp add: graph_ok_def)

lemma merged_graph_ok:
  assumes "digraph_laws nx" "signals_stated ps" "merge_graphs nx ps dflt = Ret m"
  shows "graph_ok m"
proof -
  have sound: "signals_sound ps" using assms(2) by (simp add: signals_stated_def)
  have eq: "mg_edges m = merged_edges ps" "mg_findings m = merged_findings ps"
    and v: "merged_verdict nx (merged_edges ps) (merged_findings ps) = Ret (mg_ranking m, mg_blast m)"
    using assms(3) by (auto simp: merge_graphs_def outcome_simps Let_def)
  have "x_state e \<noteq> None" if e: "e \<in> set (mg_edges m)" for e
  proof -
    obtain s g x where "(s, g) \<in> set ps" "x \<in> set (rg_edges g)" "e = tag_edge s x" using e unfolding eq merged_edges_mem by blast
    then show ?thesis using assms(2) by (auto simp: signals_stated_def)
  qed
  moreover note merged_verdict_blames[OF assms(1) merged_edges_weights[OF sound] v, folded eq]
  ultimately show ?thesis unfolding graph_ok_def by fastforce
qed

lemma published_returns:
  assumes "digraph_laws (lb_nx lb)" "settings_ok st" "signals_stated ps"
  shows "\<exists>m inc. published st lb vecs ps = Ret (m, inc) \<and> graph_ok m"
proof -
  have "MIN_FIT_N \<le> DEFAULT_TAIL" by (simp add: MIN_FIT_N_def DEFAULT_TAIL_def)
  then have "\<exists>os. omap (incipient_of (lb_np lb) lims h DEFAULT_TAIL f) vs = Ret os" for vs lims h f
    by (intro omap_total incipient_of_total)
  then have "\<exists>inc. incipient_findings (lb_np lb) vs lims h DEFAULT_TAIL f = Ret inc" for vs lims h f
    unfolding incipient_findings_def by (metis obind.simps(1))
  then obtain inc where inc: "incipient_findings (lb_np lb) (dict_get vecs (sv_fsignal st) [])
      (memory_limits (dict_get vecs (sv_flimit st) [])) (sv_horizon st) DEFAULT_TAIL (sv_min_frac st) = Ret inc" by blast
  have sound: "signals_sound ps" using assms(3) by (simp add: signals_stated_def)
  obtain m where m: "(if ps \<noteq> [] then merge_graphs (lb_nx lb) ps (primary st) else Ret (empty_merged st)) = Ret m"
    using merge_graphs_returns[OF assms(1) sound, of "primary st"] by (cases "ps = []") auto
  have "graph_ok m"
    using m merged_graph_ok[OF assms(1,3)] by (cases "ps = []") (auto simp: empty_merged_def graph_ok_def)
  with m show ?thesis by (simp add: published_def inc)
qed

lemma open_memory_edges: "mm_edges (open_memory cfg fam now m) \<in> {mm_edges m, []}"
  by (simp add: open_memory_def record_model_version_def migrate_def Let_def)

lemma open_memory_tables: "tables_ok cfg m \<Longrightarrow> tables_ok cfg (open_memory cfg fam now m)"
  using open_memory_edges[of cfg fam now m] by (auto simp: tables_ok_def corr_row_def)

lemma boot_memories_get:
  "s \<in> set (sv_signals st) \<Longrightarrow>
   map_of (boot_memories st fam now disk) s = Some (open_memory (config_for st s) fam now (disk (db_for st s)))"
  by (simp add: boot_memories_def map_of_dict_of_self)

lemma boot_memories_ok:
  assumes "\<And>s. s \<in> set (sv_signals st) \<Longrightarrow> tables_ok (config_for st s) (disk (db_for st s))"
  shows "mems_ok st (boot_memories st fam now disk)"
proof -
  have "tables_ok (config_for st s) m" if "map_of (boot_memories st fam now disk) s = Some m" for s m
    using dict_of_memD[OF that[unfolded boot_memories_def]] assms open_memory_tables by auto
  then show ?thesis using boot_memories_get unfolding mems_ok_def by blast
qed

lemma boot_graph_returns:
  assumes "digraph_laws (lb_nx lb)"
  shows "\<exists>m. boot_graph st lb now mems = Ret m \<and> graph_ok m"
proof -
  have "\<exists>g. bootstrap_graph (lb_nx lb) cfg now m = Ret g \<and> rg_edges g = []" for cfg m
    by (simp add: bootstrap_graph_def render_def render_edges_def rerank_def empty_graph_def Let_def)
  then obtain f where f: "\<And>cfg m. bootstrap_graph (lb_nx lb) cfg now m = Ret (f cfg m) \<and> rg_edges (f cfg m) = []" by metis
  let ?ps = "List.map (\<lambda>(s, m). (s, f (config_for st s) m)) mems"
  have "omap (\<lambda>(s, m). obind (bootstrap_graph (lb_nx lb) (config_for st s) now m) (\<lambda>g. Ret (s, g))) mems = Ret ?ps"
    by (rule omap_Ret_map) (auto simp: f)
  moreover have "merged_edges ?ps = []" by (induction mems) (auto simp: merged_edges_def f)
  ultimately show ?thesis by (simp add: boot_graph_def merge_graphs_def merged_verdict_def graph_ok_def Let_def)
qed

section \<open>The states of a running service\<close>

text \<open>A first start on empty databases, rounds on any feed, and restarts, which open the databases again.\<close>

inductive serve_reach :: "settings \<Rightarrow> 'g libs \<Rightarrow> service \<Rightarrow> bool" for st lb where
  start: "mems = boot_memories st fam now fresh_memory \<Longrightarrow> boot_graph st lb now mems = Ret m \<Longrightarrow>
    serve_reach st lb \<lparr>s_mem = mems, s_graph = Graph m []\<rparr>"
| round: "serve_reach st lb s \<Longrightarrow> serve_reach st lb (service_round st lb feed ts now s)"
| restart: "serve_reach st lb s \<Longrightarrow> mems = boot_memories st fam now (disk_of st (s_mem s)) \<Longrightarrow>
    boot_graph st lb now mems = Ret m \<Longrightarrow> serve_reach st lb \<lparr>s_mem = mems, s_graph = Graph m []\<rparr>"

text \<open>What is served is an error or a graph fit to be served.\<close>

definition served_ok :: "served \<Rightarrow> bool" where
  "served_ok g = (case g of Graph m inc \<Rightarrow> graph_ok m | Failed e \<Rightarrow> True)"

lemma service_round_ok:
  assumes "digraph_laws (lb_nx lb)" "corr_bounded (lb_np lb)" "settings_ok st" "mems_ok st (s_mem s)" "served_ok (s_graph s)"
  shows "mems_ok st (s_mem (service_round st lb feed ts now s)) \<and> served_ok (s_graph (service_round st lb feed ts now s)) \<and>
    (case obind feed (\<lambda>(w, evs). build_inputs (lb_iso lb) (wanted st) (sv_step st) w evs) of
       Ret _ \<Rightarrow> \<exists>m inc. s_graph (service_round st lb feed ts now s) = Graph m inc
     | Raise e \<Rightarrow> service_round st lb feed ts now s = s\<lparr>s_graph := Failed e\<rparr>
     | Diverge \<Rightarrow> service_round st lb feed ts now s = s)"
proof (cases "obind feed (\<lambda>(w, evs). build_inputs (lb_iso lb) (wanted st) (sv_step st) w evs)")
  case (Ret x)
  obtain vecs breach where x: "x = (vecs, breach)" by (cases x)
  have sized: "inputs_sized vecs"
    using Ret build_inputs_sized unfolding x by (auto simp: obind_eq_Ret)
  from signal_passes_return[OF assms(1-3) sized subset_refl assms(4), of "[]" breach ts now] obtain mems ps where
    p: "signal_passes st lb vecs breach ts now (sv_signals st) (s_mem s) [] = (mems, Ret ps)" "mems_ok st mems" "signals_stated ps"
    by (auto simp: signals_stated_def signals_sound_def)
  obtain m inc where "published st lb vecs ps = Ret (m, inc)" "graph_ok m"
    using published_returns[OF assms(1,3) p(3)] by blast
  then show ?thesis using p by (simp add: service_round_def Ret x served_ok_def)
qed (use assms(4,5) in \<open>simp_all add: service_round_def served_ok_def\<close>)

lemma serve_reach_ok:
  assumes "digraph_laws (lb_nx lb)" "corr_bounded (lb_np lb)" "settings_ok st" "serve_reach st lb s"
  shows "mems_ok st (s_mem s) \<and> served_ok (s_graph s)"
  using assms(4)
proof (induction rule: serve_reach.induct)
  case (start mems fam now m)
  have "mems_ok st mems"
    unfolding start by (auto intro!: boot_memories_ok simp: tables_ok_def fresh_memory_def corr_row_def)
  with start show ?case using boot_graph_returns[OF assms(1), of st now mems] by (auto simp: served_ok_def)
next
  case (round s feed ts now)
  then show ?case using service_round_ok[OF assms(1-3)] by blast
next
  case (restart s mems fam now m)
  have "tables_ok (config_for st x) (disk_of st (s_mem s) (db_for st x))" if "x \<in> set (sv_signals st)" for x
  proof -
    obtain m where "map_of (s_mem s) x = Some m" "tables_ok (config_for st x) m"
      by (rule mems_ok_get[OF conjunct1[OF restart.IH] \<open>x \<in> _\<close>])
    then show ?thesis by (simp add: disk_of_db)
  qed
  then have "mems_ok st mems" unfolding restart by (rule boot_memories_ok)
  with restart show ?case using boot_graph_returns[OF assms(1), of st now mems] by (auto simp: served_ok_def)
qed

section \<open>Properties\<close>

text \<open>C9. The service answers. In every reachable state, whatever was fetched before, a round whose inputs
  can be built serves a graph and never an error: no signal's pass, no rendering, merge or forecast
  raises or loops. A round whose feed fails serves the error and touches no memory. And in every state
  each signal's edge table satisfies its invariant and every edge served shows its memory state.\<close>

theorem service_answers:
  assumes "digraph_laws (lb_nx lb)" "corr_bounded (lb_np lb)" "settings_ok st" "serve_reach st lb s"
  shows "mems_ok st (s_mem s) \<and> served_ok (s_graph s) \<and>
    (case obind feed (\<lambda>(w, evs). build_inputs (lb_iso lb) (wanted st) (sv_step st) w evs) of
       Ret _ \<Rightarrow> \<exists>m inc. s_graph (service_round st lb feed ts now s) = Graph m inc
     | Raise e \<Rightarrow> service_round st lb feed ts now s = s\<lparr>s_graph := Failed e\<rparr>
     | Diverge \<Rightarrow> service_round st lb feed ts now s = s)"
  using service_round_ok[OF assms(1-3), of s feed ts now] serve_reach_ok[OF assms] by blast

definition demo_libs :: "glog libs" where
  "demo_libs = \<lparr>lb_np = quick_num, lb_nx = log_nx, lb_digest = name_digest, lb_iso = (\<lambda>_. None)\<rparr>"

lemma demo_start: "\<exists>s. serve_reach default_settings demo_libs s"
  using boot_graph_returns[of demo_libs default_settings 0 "boot_memories default_settings True 0 fresh_memory"] log_nx_laws
    serve_reach.start[OF refl, of default_settings demo_libs 0 True] by (auto simp: demo_libs_def)

theorem service_answers_witness:
  "\<exists>s m inc. serve_reach default_settings demo_libs s \<and>
     s_graph (service_round default_settings demo_libs (Ret ([], [])) 1 2 s) = Graph m inc"
proof -
  obtain s where s: "serve_reach default_settings demo_libs s" using demo_start by blast
  have "digraph_laws (lb_nx demo_libs)" "corr_bounded (lb_np demo_libs)"
    using log_nx_laws quick_num_corr_bounded by (simp_all add: demo_libs_def)
  moreover have "\<exists>x. obind (Ret ([], [])) (\<lambda>(w, evs). build_inputs (lb_iso demo_libs) (wanted default_settings) 5 w evs) = Ret x"
    by (simp add: build_inputs_def candidate_pods_def somes_def)
  moreover have "sv_step default_settings = 5" by (simp add: default_settings_def)
  ultimately have "\<exists>m inc. s_graph (service_round default_settings demo_libs (Ret ([], [])) 1 2 s) = Graph m inc"
    using service_answers[OF _ _ default_settings_ok s, of "Ret ([], [])" 1 2] by auto
  with s show ?thesis by blast
qed

text \<open>C18. A restart finds every memory again: the database paths of two signals never coincide, so after
  opening the databases by path each signal has exactly the memory it had, brought up to date.\<close>

theorem restart_finds_every_memory:
  assumes "s \<in> set (sv_signals st)" "map_of mems s = Some m"
  shows "map_of (boot_memories st fam now (disk_of st mems)) s = Some (open_memory (config_for st s) fam now m) \<and>
    (\<forall>s'. db_for st s' = db_for st s \<longleftrightarrow> s' = s)"
  using boot_memories_get[OF assms(1), of fam now "disk_of st mems"] disk_of_db[OF assms(2), of st] by (simp add: db_for_inj)

theorem restart_finds_every_memory_witness:
  "map_of (boot_memories default_settings True 5 (disk_of default_settings (boot_memories default_settings True 0 fresh_memory))) ''psi_cpu'' =
     Some (open_memory (config_for default_settings ''psi_cpu'') True 5
       (open_memory (config_for default_settings ''psi_cpu'') True 0 (fresh_memory (db_for default_settings ''psi_cpu''))))"
proof -
  have "''psi_cpu'' \<in> set (sv_signals default_settings)" by (simp add: default_settings_def)
  from restart_finds_every_memory[OF this boot_memories_get[OF this]] show ?thesis by blast
qed

text \<open>C14. Outside the disk signal only sources are blamed: with the witness the service builds for a CPU or
  memory signal every edge of a pass carries write evidence and joins two pods, and the memory of that
  signal has no prior and no floor to keep an edge alive.\<close>

theorem cpu_edges_are_sourced:
  assumes "sig \<noteq> ''psi_io''" "witness_for st sig vectors = Ret w"
    and "run_pass np nx vectors w breach caps window wvs bl recent = Ret g"
  shows "(\<forall>e \<in> set (g_edges g). Write \<in> set (e_evidence e) \<and> e_src e \<noteq> e_dst e \<and> e_dst e \<in> f_pod ` set (g_findings g)) \<and>
    c_prior (config_for st sig) = 0 \<and> c_floor_frac (config_for st sig) = 0"
proof -
  have "Write \<in> set (e_evidence e) \<and> e_src e \<noteq> e_dst e \<and> e_dst e \<in> f_pod ` set (g_findings g)" if e: "e \<in> set (g_edges g)" for e
    using pass_edges_mem[OF run_pass_RetD(1)[OF assms(3)] e]
  proof (elim disjE exE conjE)
    fix a b
    assume "psi_edge np (event_slice window (event_center w (raw_onsets np bl recent vectors)) vectors vectors) w
      (onset_times (event_center w (raw_onsets np bl recent vectors)) (raw_onsets np bl recent vectors))
      (set (keys (raw_onsets np bl recent vectors))) (a, b) = Ret (Some e)"
    then show ?thesis using witness_for_node[OF assms(2,1)] by (simp add: psi_edge_def)
  next
    fix act p v
    assume src: "source_edge np (event_slice window (event_center w (raw_onsets np bl recent vectors)) vectors vectors)
      (event_slice window (event_center w (raw_onsets np bl recent vectors)) vectors wvs) w
      (onset_times (event_center w (raw_onsets np bl recent vectors)) (raw_onsets np bl recent vectors))
      (write_onsets np (event_center w (raw_onsets np bl recent vectors)) wvs) act
      (set (keys (raw_onsets np bl recent vectors))) (p, v) = Ret (Some e)"
    from source_edge_SomeD[OF src] obtain x where "writer_admits w (write_onsets np (event_center w (raw_onsets np bl recent vectors)) wvs)
      (onset_times (event_center w (raw_onsets np bl recent vectors)) (raw_onsets np bl recent vectors)) x p v e" by blast
    then have "Write \<in> set (e_evidence e)" by (cases x) (auto simp: writer_admits_def dest: writer_edge_SomeD(4))
    then show ?thesis using source_edge_SomeD(2,3,5,6)[OF src] run_pass_RetD(3)[OF assms(3)] by auto
  qed
  with assms(1) show ?thesis by (simp add: config_for_def Let_def)
qed

definition cpu_vectors :: vectors where
  "cpu_vectors = [(''a'', replicate 13 0 @ [9, 9, 9, 9]), (''b'', replicate 17 1)]"

definition cpu_usage :: vectors where
  "cpu_usage = [(''b'', replicate 13 0 @ [9, 9, 9, 9])]"

definition cpu_witness :: witness where
  "cpu_witness = \<lparr>ebpf_edges = [], psi_copressure = [{''a'', ''b''}], shared_relation = [], same_node = [{''a'', ''b''}]\<rparr>"

lemma cpu_witness_built: "witness_for default_settings ''psi_cpu'' cpu_vectors = Ret cpu_witness"
  by code_simp

theorem cpu_edges_are_sourced_witness:
  "\<exists>g. run_pass quick_num log_nx cpu_vectors cpu_witness [] [] 36 cpu_usage None 24 = Ret g \<and>
     list_all (\<lambda>e. Write \<in> set (e_evidence e)) (g_edges g)"
proof -
  have "sized 17 cpu_vectors" "sized 17 cpu_usage" by (simp_all add: sized_def cpu_vectors_def cpu_usage_def)
  from run_pass_returns[OF log_nx_laws quick_num_corr_bounded _ this, of cpu_witness "[]" "[]" 36 None 24] obtain g where
    g: "run_pass quick_num log_nx cpu_vectors cpu_witness [] [] 36 cpu_usage None 24 = Ret g" by auto
  with cpu_edges_are_sourced[OF _ cpu_witness_built g] show ?thesis by (simp add: list_all_iff)
qed

end
