(* ===== verification/Api_Analysis.thy ===== *)
theory Api_Analysis
  imports Workload_Name Keep_Best
begin

text \<open>
  The analyses of the API gateway, \<open>src/api/main.py\<close>, over what Prometheus answers: the Caretta
  topology, the sums per workload and per pod, right-sizing cards, the fairness index and the two
  endpoints built from them. A query is answered by a list of series or not at all; the value of a
  series is what \<open>float\<close> makes of it, if anything. The text of a card is a structured value.
\<close>

definition truthy :: "string option \<Rightarrow> bool" where
  "truthy s = (case s of None \<Rightarrow> False | Some x \<Rightarrow> x \<noteq> [])"

section \<open>Topology\<close>

record link =
  ln_client :: "string option"
  ln_server :: "string option"
  ln_client_ns :: string
  ln_server_ns :: string
  ln_port :: "string option"
  ln_value :: "real option"

record topo_edge =
  te_src :: string
  te_dst :: string
  te_src_ns :: string
  te_dst_ns :: string
  te_port :: "string option"
  te_bytes :: int

definition in_scope :: "string \<Rightarrow> link \<Rightarrow> bool" where
  "in_scope pre l \<longleftrightarrow> truthy (ln_client l) \<and> truthy (ln_server l) \<and> ln_client l \<noteq> ln_server l \<and>
     starts_with pre (ln_client_ns l) \<and> starts_with pre (ln_server_ns l)"

definition link_bytes :: "link \<Rightarrow> real" where
  "link_bytes l = (case ln_value l of None \<Rightarrow> 0 | Some b \<Rightarrow> b)"

definition topo_step :: "string \<Rightarrow> link \<Rightarrow> (string \<times> string, topo_edge) dict \<Rightarrow> (string \<times> string, topo_edge) dict" where
  "topo_step pre l best =
     (if \<not> in_scope pre l then best
      else
       (let k = (the (ln_client l), the (ln_server l)); b = link_bytes l;
            new = AList.update k \<lparr>te_src = fst k, te_dst = snd k, te_src_ns = ln_client_ns l, te_dst_ns = ln_server_ns l,
                     te_port = ln_port l, te_bytes = round_half_even b\<rparr> best
        in case map_of best k of
             None \<Rightarrow> new
           | Some e \<Rightarrow> (if b > of_int (te_bytes e) then new else best)))"

definition parse_caretta :: "string \<Rightarrow> link list \<Rightarrow> topo_edge list" where
  "parse_caretta pre result = sort_key (\<lambda>e. - te_bytes e) (List.map snd (fold (topo_step pre) result []))"

section \<open>Sums of series\<close>

record prom_series =
  ps_ns :: "string option"
  ps_pod :: "string option"
  ps_value :: "real option"

definition add_to :: "'k \<times> real \<Rightarrow> ('k, real) dict \<Rightarrow> ('k, real) dict" where
  "add_to kv d = AList.update (fst kv) (dict_get d (fst kv) 0 + snd kv) d"

definition readable_series :: "prom_series list \<Rightarrow> ((string \<times> pod) \<times> real) list" where
  "readable_series result =
     concat (List.map (\<lambda>s. if \<not> truthy (ps_ns s) \<or> \<not> truthy (ps_pod s) then []
                           else (case ps_value s of None \<Rightarrow> [] | Some v \<Rightarrow> [((the (ps_ns s), the (ps_pod s)), v)])) result)"

definition prom_pod_map :: "prom_series list option \<Rightarrow> (string \<times> pod, real) dict" where
  "prom_pod_map result = (case result of None \<Rightarrow> [] | Some ss \<Rightarrow> fold add_to (readable_series ss) [])"

definition prom_map :: "prom_series list option \<Rightarrow> (string \<times> workload, real) dict" where
  "prom_map result =
     (case result of None \<Rightarrow> []
      | Some ss \<Rightarrow> fold add_to (List.map (\<lambda>((ns, p), v). ((ns, stable_workload p), v)) (readable_series ss)) [])"

section \<open>Right-sizing\<close>

datatype resource = Cpu | Memory
datatype quantity = Milli int | Cores real | Bytes int string

definition fmt_cpu :: "real \<Rightarrow> quantity" where
  "fmt_cpu c = (if c < 1 then Milli (round_half_even (c * 1000)) else Cores (py_round 2 c))"

fun mem_unit :: "real \<Rightarrow> string list \<Rightarrow> real \<times> string" where
  "mem_unit v [] = (v, [])"
| "mem_unit v [u] = (v, u)"
| "mem_unit v (u # us) = (if v \<ge> 1024 then mem_unit (v / 1024) us else (v, u))"

definition fmt_mem :: "real \<Rightarrow> quantity" where
  "fmt_mem b = (case mem_unit b [''B'', ''KB'', ''MB'', ''GB''] of (v, u) \<Rightarrow> Bytes (round_half_even v) u)"

definition fmt :: "resource \<Rightarrow> real \<Rightarrow> quantity" where
  "fmt r = (if r = Cpu then fmt_cpu else fmt_mem)"

datatype verb = Reclaim | Resize

record card =
  cd_verb :: verb
  cd_workload :: workload
  cd_resource :: resource
  cd_detail :: "quantity list"
  cd_request :: "real option"
  cd_limit :: "real option"
  cd_p95 :: real
  cd_target :: real

definition HEADROOM :: real where "HEADROOM = 1.3"

definition min_save :: "resource \<Rightarrow> real" where
  "min_save r = (if r = Cpu then 0.05 else 64 * 1024 * 1024)"

definition reclaim_card :: "real \<Rightarrow> workload \<Rightarrow> real option \<Rightarrow> real option \<Rightarrow> real option \<Rightarrow> resource \<Rightarrow> card option" where
  "reclaim_card reclaim_frac wl req cap p95 r =
     (case (req, p95) of
        (Some q, Some p) \<Rightarrow>
          (if q \<noteq> 0 \<and> p < reclaim_frac * q then
             (let target = max (p * HEADROOM) (q * 0.1); save = q - target
              in if save > min_save r then
                   Some \<lparr>cd_verb = Reclaim, cd_workload = wl, cd_resource = r, cd_detail = [fmt r q, fmt r p, fmt r save],
                         cd_request = req, cd_limit = cap, cd_p95 = p, cd_target = py_round 3 target\<rparr>
                 else None)
           else None)
      | _ \<Rightarrow> None)"

definition rightsize ::
  "real \<Rightarrow> real \<Rightarrow> workload \<Rightarrow> real option \<Rightarrow> real option \<Rightarrow> real option \<Rightarrow> resource \<Rightarrow> card option" where
  "rightsize reclaim_frac resize_frac wl req cap p95 r =
     (case reclaim_card reclaim_frac wl req cap p95 r of
        Some c \<Rightarrow> Some c
      | None \<Rightarrow>
          (case (cap, p95) of
             (Some l, Some p) \<Rightarrow>
               (if l \<noteq> 0 \<and> p > resize_frac * l then
                  Some \<lparr>cd_verb = Resize, cd_workload = wl, cd_resource = r, cd_detail = [fmt r p, fmt r l],
                        cd_request = req, cd_limit = cap, cd_p95 = p, cd_target = py_round 3 (l * 1.5)\<rparr>
                else None)
           | _ \<Rightarrow> None))"

section \<open>Fairness\<close>

text \<open>\<open>sum((i + 1) * v for i, v in enumerate(xs))\<close>.\<close>

definition rank_sum :: "real list \<Rightarrow> real" where
  "rank_sum xs = sum_list (List.map (\<lambda>(i, v). of_nat (i + 1) * v) (enumerate 0 xs))"

definition gini_raw :: "real list \<Rightarrow> real" where
  "gini_raw xs =
     (let ys = sort (filter (\<lambda>v. v \<ge> 0) xs); n = length ys; s = sum_list ys
      in if n = 0 \<or> s = 0 then 0 else 2 * rank_sum ys / (of_nat n * s) - (of_nat n + 1) / of_nat n)"

definition gini :: "real list \<Rightarrow> real" where
  "gini xs = py_round 3 (gini_raw xs)"

record ns_fairness =
  nf_ns :: string
  nf_gini :: real
  nf_workloads :: nat

definition by_namespace :: "(string \<times> workload, real) dict \<Rightarrow> (string, real list) dict" where
  "by_namespace stall = fold (\<lambda>((ns, _), v) d. AList.update ns (dict_get d ns [] @ [v]) d) stall []"

definition fairness :: "(string \<times> workload, real) dict \<Rightarrow> ns_fairness list" where
  "fairness stall = List.map (\<lambda>(ns, vs). \<lparr>nf_ns = ns, nf_gini = gini vs, nf_workloads = length vs\<rparr>) (sort_key fst (by_namespace stall))"

section \<open>The endpoints\<close>

record ns_card = card +
  cd_ns :: string

record advice =
  ad_cards :: "ns_card list"
  ad_fairness :: "ns_fairness list"
  ad_available :: bool

definition metric_names :: "string \<Rightarrow> string list" where
  "metric_names third = [''cpu_req'', ''cpu_lim'', ''cpu_'' @ third, ''mem_req'', ''mem_lim'', ''mem_'' @ third]"

definition cards_for ::
  "real \<Rightarrow> real \<Rightarrow> (string \<Rightarrow> (string \<times> workload, real) dict) \<Rightarrow> string \<times> workload \<Rightarrow> ns_card list" where
  "cards_for rf zf maps k =
     (let card = (\<lambda>r rq lm p9. case rightsize rf zf (snd k) (map_of (maps rq) k) (map_of (maps lm) k) (map_of (maps p9) k) r of
                    None \<Rightarrow> [] | Some c \<Rightarrow> [card.extend c \<lparr>cd_ns = fst k\<rparr>])
      in card Cpu ''cpu_req'' ''cpu_lim'' ''cpu_p95'' @ card Memory ''mem_req'' ''mem_lim'' ''mem_p95'')"

definition all_keys :: "(string \<Rightarrow> ('k :: linorder, real) dict) \<Rightarrow> string list \<Rightarrow> 'k list" where
  "all_keys maps names = sorted_list_of_set (\<Union>n \<in> set names. set (keys (maps n)))"

definition total_stall :: "(string \<Rightarrow> prom_series list option) \<Rightarrow> (string \<times> workload, real) dict" where
  "total_stall q = fold add_to (concat (List.map (\<lambda>psi. prom_map (q psi)) [''io'', ''cpu'', ''memory''])) []"

definition recommendations :: "real \<Rightarrow> real \<Rightarrow> (string \<Rightarrow> prom_series list option) \<Rightarrow> advice" where
  "recommendations rf zf q =
     (let maps = (\<lambda>n. prom_map (q n)) in
      if list_all (\<lambda>n. maps n = []) (metric_names ''p95'') then \<lparr>ad_cards = [], ad_fairness = [], ad_available = False\<rparr>
      else \<lparr>ad_cards = sort_key (\<lambda>c. (cd_verb c \<noteq> Resize, - cd_p95 c))
                          (concat (List.map (cards_for rf zf maps) (all_keys maps (metric_names ''p95'')))),
            ad_fairness = fairness (total_stall q), ad_available = True\<rparr>)"

record usage =
  us_request :: "real option"
  us_limit :: "real option"
  us_usage :: real

record pod_row =
  pr_ns :: string
  pr_pod :: pod
  pr_workload :: workload
  pr_cpu :: usage
  pr_mem :: usage

definition pod_resources :: "(string \<Rightarrow> prom_series list option) \<Rightarrow> pod_row list \<times> bool" where
  "pod_resources q =
     (let maps = (\<lambda>n. prom_pod_map (q n)) in
      if list_all (\<lambda>n. maps n = []) (metric_names ''use'') then ([], False)
      else (List.map (\<lambda>k. \<lparr>pr_ns = fst k, pr_pod = snd k, pr_workload = stable_workload (snd k),
              pr_cpu = \<lparr>us_request = map_of (maps ''cpu_req'') k, us_limit = map_of (maps ''cpu_lim'') k,
                        us_usage = py_round 4 (dict_get (maps ''cpu_use'') k 0)\<rparr>,
              pr_mem = \<lparr>us_request = map_of (maps ''mem_req'') k, us_limit = map_of (maps ''mem_lim'') k,
                        us_usage = of_int (round_half_even (dict_get (maps ''mem_use'') k 0))\<rparr>\<rparr>)
              (all_keys maps (metric_names ''use'')), True))"

section \<open>Lemmas: topology\<close>

definition topo_of :: "link \<Rightarrow> topo_edge \<Rightarrow> bool" where
  "topo_of l e \<longleftrightarrow> ln_client l = Some (te_src e) \<and> ln_server l = Some (te_dst e) \<and> te_src_ns e = ln_client_ns l \<and>
     te_dst_ns e = ln_server_ns l \<and> te_port e = ln_port l \<and> te_bytes e = round_half_even (link_bytes l)"

definition pair_of :: "link \<Rightarrow> string \<times> string" where
  "pair_of l = (the (ln_client l), the (ln_server l))"

definition topo_inv :: "string \<Rightarrow> link list \<Rightarrow> (string \<times> string, topo_edge) dict \<Rightarrow> bool" where
  "topo_inv pre ls d \<longleftrightarrow> distinct (keys d) \<and>
     (\<forall>(k, e) \<in> set d. k = (te_src e, te_dst e) \<and> (\<exists>l \<in> set ls. in_scope pre l \<and> topo_of l e)) \<and>
     (\<forall>l \<in> set ls. in_scope pre l \<longrightarrow> (\<exists>e. map_of d (pair_of l) = Some e \<and> round_half_even (link_bytes l) \<le> te_bytes e))"

lemma round_le_stored: "b \<le> of_int i \<Longrightarrow> round_half_even b \<le> i"
  using round_half_even_mono[of b "of_int i"] by simp

lemma stored_le_round: "of_int i \<le> b \<Longrightarrow> i \<le> round_half_even b"
  using round_half_even_mono[of "of_int i" b] by simp

lemma topo_inv_step:
  assumes inv: "topo_inv pre ls d"
  shows "topo_inv pre (ls @ [l]) (topo_step pre l d)"
proof (cases "in_scope pre l")
  case False
  then have "topo_step pre l d = d" by (simp add: topo_step_def)
  with inv False show ?thesis by (fastforce simp: topo_inv_def)
next
  case True
  let ?k = "pair_of l"
  let ?e = "\<lparr>te_src = fst ?k, te_dst = snd ?k, te_src_ns = ln_client_ns l, te_dst_ns = ln_server_ns l,
              te_port = ln_port l, te_bytes = round_half_even (link_bytes l)\<rparr>"
  have new: "topo_of l ?e" using True by (auto simp: topo_of_def in_scope_def truthy_def pair_of_def split: option.splits)
  have k: "?k = (te_src ?e, te_dst ?e)" by simp
  show ?thesis
  proof (cases "\<exists>e. map_of d ?k = Some e \<and> link_bytes l \<le> of_int (te_bytes e)")
    case keep: True
    then have "topo_step pre l d = d" using True by (auto simp: topo_step_def Let_def pair_of_def not_less split: option.splits)
    with keep inv show ?thesis unfolding topo_inv_def by (auto dest: round_le_stored)
  next
    case False
    then have step: "topo_step pre l d = AList.update ?k ?e d"
      using True by (auto simp: topo_step_def Let_def pair_of_def split: option.splits)
    have A: "\<exists>e. map_of (AList.update ?k ?e d) (pair_of l') = Some e \<and> round_half_even (link_bytes l') \<le> te_bytes e"
      if "l' \<in> set (ls @ [l])" "in_scope pre l'" for l'
    proof (cases "l' = l")
      case neq: False
      then have "l' \<in> set ls" using that(1) by simp
      with that(2) obtain e where e: "map_of d (pair_of l') = Some e" "round_half_even (link_bytes l') \<le> te_bytes e"
        using inv unfolding topo_inv_def by blast
      have "te_bytes e \<le> round_half_even (link_bytes l)" if "pair_of l' = ?k"
        using e(1) that False by (intro stored_le_round) (auto simp: not_le less_imp_le)
      with e show ?thesis by auto
    qed simp
    have B: "case c of (k, e) \<Rightarrow> k = (te_src e, te_dst e) \<and> (\<exists>l' \<in> set (ls @ [l]). in_scope pre l' \<and> topo_of l' e)"
      if "c \<in> set (AList.update ?k ?e d)" for c
    proof -
      have "c = (?k, ?e) \<or> c \<in> set d" using set_update[of ?k ?e d] that by blast
      then show ?thesis
      proof
        assume "c = (?k, ?e)"
        then show ?thesis using k new True by auto
      next
        assume "c \<in> set d"
        then show ?thesis using inv unfolding topo_inv_def by fastforce
      qed
    qed
    have D: "distinct (keys (AList.update ?k ?e d))" using inv by (auto simp: topo_inv_def intro: distinct_update)
    show ?thesis unfolding step topo_inv_def using A B D by blast
  qed
qed

lemma topo_inv_fold: "topo_inv pre ls (fold (topo_step pre) ls [])"
proof (induction ls rule: rev_induct)
  case (snoc l ls)
  then show ?case using topo_inv_step by simp
qed (simp add: topo_inv_def)

section \<open>Lemmas: sums\<close>

lemma fold_add_to_get: "dict_get (fold add_to ps d) k 0 = dict_get d k 0 + sum_list (List.map snd (filter (\<lambda>p. fst p = k) ps))"
  by (induction ps arbitrary: d) (auto simp: add_to_def)

lemma fold_add_to_distinct: "distinct (keys d) \<Longrightarrow> distinct (keys (fold add_to ps d))"
  by (induction ps arbitrary: d) (simp_all add: add_to_def distinct_update)

lemma update_sum:
  "distinct (keys d) \<Longrightarrow> sum_list (List.map snd (filter (\<lambda>p. P (fst p)) (AList.update k (dict_get d k 0 + v) d))) =
     sum_list (List.map snd (filter (\<lambda>p. P (fst p)) d)) + (if P k then v else (0 :: real))"
proof (induction d)
  case (Cons a d)
  show ?case
  proof (cases "fst a = k")
    case True
    then have "dict_get (a # d) k 0 = snd a" by (cases a) (simp add: dict_get_def)
    with True show ?thesis by (cases a) auto
  next
    case False
    then have "dict_get (a # d) k 0 = dict_get d k 0" by (cases a) (simp add: dict_get_def)
    with False Cons show ?thesis by (cases a) auto
  qed
qed (simp add: dict_get_def)

lemma fold_add_to_sum:
  "distinct (keys d) \<Longrightarrow> sum_list (List.map snd (filter (\<lambda>p. P (fst p)) (fold add_to ps d))) =
     sum_list (List.map snd (filter (\<lambda>p. P (fst p)) d)) + sum_list (List.map snd (filter (\<lambda>p. P (fst p)) ps))"
proof (induction ps arbitrary: d)
  case (Cons kv ps)
  have "distinct (keys (add_to kv d))" using Cons.prems by (simp add: add_to_def distinct_update)
  from Cons.IH[OF this] show ?case using update_sum[OF Cons.prems, of P "fst kv" "snd kv"] by (simp add: add_to_def)
qed simp

section \<open>Lemmas: the Gini coefficient\<close>

lemma rank_sum_snoc: "rank_sum (xs @ [y]) = rank_sum xs + (of_nat (length xs) + 1) * y"
  by (simp add: rank_sum_def enumerate_append_eq)

lemma sum_le_last: "sorted (xs @ [y]) \<Longrightarrow> sum_list xs \<le> of_nat (length xs) * (y :: real)"
  by (induction xs) (auto simp: sorted_append algebra_simps)

lemma rank_sum_lower: "sorted xs \<Longrightarrow> (of_nat (length xs) + 1) * sum_list xs \<le> 2 * rank_sum xs"
proof (induction xs rule: rev_induct)
  case (snoc y xs)
  have "(of_nat (length xs) + 1) * sum_list xs \<le> 2 * rank_sum xs" using snoc by (simp add: sorted_append)
  with sum_le_last[OF snoc.prems] show ?case by (simp add: rank_sum_snoc algebra_simps)
qed (simp add: rank_sum_def)

lemma rank_sum_upper: "\<forall>x \<in> set xs. 0 \<le> x \<Longrightarrow> rank_sum xs \<le> of_nat (length xs) * sum_list xs"
proof (induction xs rule: rev_induct)
  case (snoc y xs)
  then have "0 \<le> sum_list xs" by (intro sum_list_nonneg) simp
  with snoc show ?case by (simp add: rank_sum_snoc algebra_simps)
qed (simp add: rank_sum_def)

lemma gini_raw_bounds: "0 \<le> gini_raw xs \<and> gini_raw xs < 1"
proof -
  let ?ys = "sort (filter (\<lambda>v. v \<ge> 0) xs)"
  let ?n = "of_nat (length ?ys) :: real" and ?s = "sum_list ?ys"
  show ?thesis
  proof (cases "length ?ys = 0 \<or> ?s = 0")
    case False
    have nonneg: "\<forall>x \<in> set ?ys. 0 \<le> x" by simp
    then have "0 \<le> ?s" by (intro sum_list_nonneg) simp
    with False have pos: "0 < ?n" "0 < ?s" by auto
    have "(?n + 1) * ?s \<le> 2 * rank_sum ?ys" by (rule rank_sum_lower) simp
    then have "(?n + 1) * ?s / (?n * ?s) \<le> 2 * rank_sum ?ys / (?n * ?s)" using pos by (intro divide_right_mono) auto
    moreover have "(?n + 1) * ?s / (?n * ?s) = (?n + 1) / ?n" using pos by simp
    moreover have "2 * rank_sum ?ys / (?n * ?s) \<le> 2 * (?n * ?s) / (?n * ?s)"
      using rank_sum_upper[OF nonneg] pos by (intro divide_right_mono) auto
    moreover have "2 * (?n * ?s) / (?n * ?s) = 2" using pos by simp
    moreover have "(?n + 1) / ?n > 1" using pos by simp
    moreover have "gini_raw xs = 2 * rank_sum ?ys / (?n * ?s) - (?n + 1) / ?n" using False by (simp only: gini_raw_def Let_def simp_thms if_False)
    ultimately show ?thesis by linarith
  qed (auto simp: gini_raw_def Let_def)
qed

lemma by_namespace_lengths:
  "dict_get (fold (\<lambda>((ns, w), v) d. AList.update ns (dict_get d ns [] @ [v]) d) stall d) ns [] =
     dict_get d ns [] @ List.map snd (filter (\<lambda>p. fst (fst p) = ns) stall)"
  by (induction stall arbitrary: d) auto

lemma by_namespace_keys:
  "distinct (keys d) \<Longrightarrow> distinct (keys (fold (\<lambda>((ns, w), v) d. AList.update ns (dict_get d ns [] @ [v]) d) stall d)) \<and>
     set (keys (fold (\<lambda>((ns, w), v) d. AList.update ns (dict_get d ns [] @ [v]) d) stall d)) = set (keys d) \<union> (fst \<circ> fst) ` set stall"
  by (induction stall arbitrary: d) (simp_all add: distinct_update case_prod_beta)

section \<open>Properties\<close>

text \<open>The topology is faithful: one edge per pair of workloads, never a loop, heaviest first; every edge
  is a scoped series, and for every scoped series the edge of its pair carries at least its bytes.\<close>

theorem topology_faithful:
  "distinct (List.map (\<lambda>e. (te_src e, te_dst e)) (parse_caretta pre ls)) \<and>
   sorted_wrt (\<lambda>e e'. te_bytes e' \<le> te_bytes e) (parse_caretta pre ls) \<and>
   (\<forall>e \<in> set (parse_caretta pre ls). te_src e \<noteq> te_dst e \<and> (\<exists>l \<in> set ls. in_scope pre l \<and> topo_of l e)) \<and>
   (\<forall>l \<in> set ls. in_scope pre l \<longrightarrow>
      (\<exists>e \<in> set (parse_caretta pre ls). (te_src e, te_dst e) = pair_of l \<and> round_half_even (link_bytes l) \<le> te_bytes e))"
proof -
  let ?d = "fold (topo_step pre) ls []"
  have inv: "topo_inv pre ls ?d" by (rule topo_inv_fold)
  then have d: "\<And>k e. (k, e) \<in> set ?d \<Longrightarrow> k = (te_src e, te_dst e) \<and> (\<exists>l \<in> set ls. in_scope pre l \<and> topo_of l e)"
    "distinct (keys ?d)"
    "\<And>l. l \<in> set ls \<Longrightarrow> in_scope pre l \<Longrightarrow> \<exists>e. map_of ?d (pair_of l) = Some e \<and> round_half_even (link_bytes l) \<le> te_bytes e"
    unfolding topo_inv_def by fastforce+
  have set_eq: "set (parse_caretta pre ls) = snd ` set ?d" by (simp add: parse_caretta_def)
  have "mset (List.map (\<lambda>e. (te_src e, te_dst e)) (parse_caretta pre ls)) = mset (List.map (\<lambda>e. (te_src e, te_dst e)) (List.map snd ?d))"
    by (simp add: parse_caretta_def image_mset.compositionality)
  moreover have "List.map (\<lambda>e. (te_src e, te_dst e)) (List.map snd ?d) = keys ?d"
    unfolding map_map comp_def by (rule map_cong[OF refl]) (use d(1) in force)
  ultimately have "distinct (List.map (\<lambda>e. (te_src e, te_dst e)) (parse_caretta pre ls))"
    using d(2) by (metis mset_eq_imp_distinct_iff)
  moreover have "sorted_wrt (\<lambda>e e'. te_bytes e' \<le> te_bytes e) (parse_caretta pre ls)"
    unfolding parse_caretta_def by (rule sorted_wrt_mono_rel[OF _ sort_key_sorted_wrt]) auto
  moreover have "te_src e \<noteq> te_dst e \<and> (\<exists>l \<in> set ls. in_scope pre l \<and> topo_of l e)" if e: "e \<in> set (parse_caretta pre ls)" for e
  proof -
    obtain k where "(k, e) \<in> set ?d" using e unfolding set_eq by auto
    with d(1) show ?thesis by (fastforce simp: in_scope_def topo_of_def)
  qed
  moreover have "\<exists>e \<in> set (parse_caretta pre ls). (te_src e, te_dst e) = pair_of l \<and> round_half_even (link_bytes l) \<le> te_bytes e"
    if l: "l \<in> set ls" "in_scope pre l" for l
  proof -
    obtain e where e: "map_of ?d (pair_of l) = Some e" "round_half_even (link_bytes l) \<le> te_bytes e" using d(3)[OF l] by blast
    from map_of_SomeD[OF e(1)] d(1)[of "pair_of l" e] set_eq e(2) show ?thesis by force
  qed
  ultimately show ?thesis by blast
qed

definition demo_links :: "link list" where
  "demo_links = [\<lparr>ln_client = Some ''plc'', ln_server = Some ''mqtt'', ln_client_ns = ''factory-a'', ln_server_ns = ''factory-b'',
     ln_port = Some ''1883'', ln_value = Some (21 / 2)\<rparr>,
    \<lparr>ln_client = Some ''plc'', ln_server = Some ''mqtt'', ln_client_ns = ''factory-a'', ln_server_ns = ''factory-b'',
     ln_port = None, ln_value = None\<rparr>]"

theorem topology_faithful_witness:
  "\<exists>e. parse_caretta ''factory'' demo_links = [e] \<and> te_src e \<noteq> te_dst e \<and> te_bytes e = 10"
proof -
  have "List.map te_bytes (parse_caretta ''factory'' demo_links) = [10]" by code_simp
  then obtain e where "parse_caretta ''factory'' demo_links = [e]" "te_bytes e = 10" by auto
  with topology_faithful[of "''factory''" demo_links] show ?thesis by simp
qed

text \<open>Summing by workload and by pod agree: the value of a workload is the sum of the values of its pods,
  and nothing is lost or counted twice.\<close>

theorem workload_sums_are_pod_sums:
  "dict_get (prom_map result) (ns, w) 0 =
     sum_list (List.map snd (filter (\<lambda>p. fst (fst p) = ns \<and> stable_workload (snd (fst p)) = w) (prom_pod_map result)))"
proof (cases result)
  case (Some ss)
  have "sum_list (List.map snd (filter (\<lambda>p. fst p = (ns, w)) (List.map (\<lambda>((ns, p), v). ((ns, stable_workload p), v)) rs))) =
      sum_list (List.map snd (filter (\<lambda>p. fst (fst p) = ns \<and> stable_workload (snd (fst p)) = w) rs))" for rs :: "((string \<times> pod) \<times> real) list"
    by (induction rs) auto
  then show ?thesis
    using fold_add_to_sum[of "[]" "\<lambda>k. fst k = ns \<and> stable_workload (snd k) = w" "readable_series ss"]
    by (simp add: prom_map_def prom_pod_map_def Some fold_add_to_get dict_get_Nil)
qed (simp add: prom_map_def prom_pod_map_def dict_get_def)

text \<open>Right-sizing is safe: a reclaim card only for a workload below the threshold, whose target keeps its
  95th percentile plus headroom (up to the rounding to three digits) and stays below the request by
  more than the minimum; a resize card only above the threshold, to one and a half times the limit.\<close>

theorem rightsizing_safe:
  assumes "rightsize rf zf wl req cap p95 r = Some c"
  shows "case cd_verb c of
      Reclaim \<Rightarrow> \<exists>q. req = Some q \<and> p95 = Some (cd_p95 c) \<and> cd_p95 c < rf * q \<and> cd_p95 c * HEADROOM \<le> cd_target c + 1 / 2000 \<and>
        cd_target c \<le> q - min_save r + 1 / 2000
    | Resize \<Rightarrow> \<exists>l. cap = Some l \<and> p95 = Some (cd_p95 c) \<and> zf * l < cd_p95 c \<and> \<bar>cd_target c - l * 1.5\<bar> \<le> 1 / 2000"
proof -
  have err: "\<bar>py_round 3 x - x\<bar> \<le> 1 / 2000" for x using py_round_error[of 3 x] by simp
  show ?thesis
  proof (cases "reclaim_card rf wl req cap p95 r")
    case (Some c')
    then have c': "c' = c" using assms by (simp add: rightsize_def)
    from Some obtain q p where q: "req = Some q" "p95 = Some p" "p < rf * q" "min_save r < q - max (p * HEADROOM) (q * 0.1)"
      and c: "cd_verb c = Reclaim" "cd_p95 c = p" "cd_target c = py_round 3 (max (p * HEADROOM) (q * 0.1))"
      by (auto simp: reclaim_card_def Let_def c' split: option.splits if_splits)
    have "cd_p95 c * HEADROOM \<le> cd_target c + 1 / 2000" "cd_target c \<le> q - min_save r + 1 / 2000"
      unfolding c using err[of "max (p * HEADROOM) (q * 0.1)"] q(4) max.cobounded1[of "p * HEADROOM" "q * 0.1"] by linarith+
    with q c(1,2) show ?thesis by simp
  next
    case None
    with assms obtain l p where "cap = Some l" "p95 = Some p" "zf * l < p" "cd_verb c = Resize" "cd_p95 c = p"
      "cd_target c = py_round 3 (l * 1.5)"
      by (auto simp: rightsize_def split: option.splits if_splits)
    with err[of "l * 1.5"] show ?thesis by simp
  qed
qed

theorem rightsizing_safe_witness:
  "\<exists>c. rightsize 0.5 0.85 ''db'' (Some 1) None (Some 0.1) Cpu = Some c \<and> 0.1 * HEADROOM \<le> cd_target c + 1 / 2000"
proof -
  let ?x = "rightsize 0.5 0.85 ''db'' (Some 1) None (Some 0.1) Cpu"
  have "(case ?x of None \<Rightarrow> False | Some c \<Rightarrow> cd_verb c = Reclaim \<and> cd_p95 c = 0.1)" by code_simp
  then obtain c where c: "?x = Some c" "cd_verb c = Reclaim" "cd_p95 c = 0.1" by (auto split: option.splits)
  with rightsizing_safe[OF c(1)] show ?thesis by auto
qed

text \<open>The recommendations are complete and in order: unless Prometheus gave nothing, the cards are exactly
  the right-sizing cards of every workload that some query knows and of both resources, those at risk
  before those to reclaim, each group by descending use.\<close>

theorem recommendations_complete:
  assumes "ad_available (recommendations rf zf q)"
  shows "mset (ad_cards (recommendations rf zf q)) =
      mset (concat (List.map (cards_for rf zf (\<lambda>n. prom_map (q n))) (all_keys (\<lambda>n. prom_map (q n)) (metric_names ''p95'')))) \<and>
    set (all_keys (\<lambda>n. prom_map (q n)) (metric_names ''p95'')) = (\<Union>n \<in> set (metric_names ''p95''). set (keys (prom_map (q n)))) \<and>
    sorted_wrt (\<lambda>c c'. (cd_verb c = Resize \<or> cd_verb c' = Reclaim) \<and> (cd_verb c = cd_verb c' \<longrightarrow> cd_p95 c' \<le> cd_p95 c))
      (ad_cards (recommendations rf zf q))"
proof -
  let ?cs = "concat (List.map (cards_for rf zf (\<lambda>n. prom_map (q n))) (all_keys (\<lambda>n. prom_map (q n)) (metric_names ''p95'')))"
  have cards: "ad_cards (recommendations rf zf q) = sort_key (\<lambda>c. (cd_verb c \<noteq> Resize, - cd_p95 c)) ?cs"
    using assms by (auto simp: recommendations_def Let_def split: if_splits)
  have "(cd_verb c = Resize \<or> cd_verb c' = Reclaim) \<and> (cd_verb c = cd_verb c' \<longrightarrow> cd_p95 c' \<le> cd_p95 c)"
    if "(cd_verb c \<noteq> Resize, - cd_p95 c) \<le> (cd_verb c' \<noteq> Resize, - cd_p95 c')" for c c' :: ns_card
    using that by (cases "cd_verb c"; cases "cd_verb c'") (auto simp: less_eq_prod_def)
  then have "sorted_wrt (\<lambda>c c'. (cd_verb c = Resize \<or> cd_verb c' = Reclaim) \<and> (cd_verb c = cd_verb c' \<longrightarrow> cd_p95 c' \<le> cd_p95 c))
      (ad_cards (recommendations rf zf q))"
    unfolding cards by (intro sorted_wrt_mono_rel[OF _ sort_key_sorted_wrt]) blast
  then show ?thesis by (simp add: cards all_keys_def)
qed

text \<open>The fairness index is an index: one row per namespace that stalls, counting its workloads, with a Gini
  coefficient between 0 and 1.\<close>

theorem fairness_is_an_index:
  "distinct (List.map nf_ns (fairness stall)) \<and> set (List.map nf_ns (fairness stall)) = fst ` set (keys stall) \<and>
   (\<forall>f \<in> set (fairness stall). 0 \<le> nf_gini f \<and> nf_gini f \<le> 1 \<and>
      nf_workloads f = length (filter (\<lambda>p. fst (fst p) = nf_ns f) stall))"
proof -
  let ?d = "by_namespace stall"
  have k: "distinct (keys ?d)" "set (keys ?d) = fst ` set (keys stall)"
    using by_namespace_keys[of "[]" stall] by (auto simp: by_namespace_def image_image)
  have ns: "List.map nf_ns (fairness stall) = keys (sort_key fst ?d)" by (simp add: fairness_def comp_def case_prod_beta)
  have "mset (keys (sort_key fst ?d)) = mset (keys ?d)" by simp
  then have "distinct (List.map nf_ns (fairness stall))" unfolding ns using k(1) by (metis mset_eq_imp_distinct_iff)
  moreover have "set (List.map nf_ns (fairness stall)) = fst ` set (keys stall)" unfolding ns using k(2) by simp
  moreover have "0 \<le> nf_gini f \<and> nf_gini f \<le> 1 \<and> nf_workloads f = length (filter (\<lambda>p. fst (fst p) = nf_ns f) stall)"
    if "f \<in> set (fairness stall)" for f
  proof -
    from that obtain ns vs where f: "(ns, vs) \<in> set ?d" "f = \<lparr>nf_ns = ns, nf_gini = gini vs, nf_workloads = length vs\<rparr>"
      by (auto simp: fairness_def)
    have "vs = List.map snd (filter (\<lambda>p. fst (fst p) = ns) stall)"
      using by_namespace_lengths[of stall "[]" ns] f(1) k(1) by (simp add: by_namespace_def dict_get_def)
    moreover have "0 \<le> gini vs \<and> gini vs \<le> 1"
      using gini_raw_bounds[of vs] by (simp add: gini_def py_round_nonneg py_round_le_1)
    ultimately show ?thesis by (simp add: f(2))
  qed
  ultimately show ?thesis by blast
qed

theorem fairness_is_an_index_witness:
  "\<exists>f. fairness [((''ns'', ''a''), 1), ((''ns'', ''b''), 3)] = [f] \<and> 0 \<le> nf_gini f \<and> nf_gini f \<le> 1"
proof -
  let ?st = "[((''ns'', ''a''), 1), ((''ns'', ''b''), 3)] :: ((string \<times> workload) \<times> real) list"
  have "length (fairness ?st) = 1" by code_simp
  then obtain f where "fairness ?st = [f]" by (auto simp: length_Suc_conv)
  with fairness_is_an_index[of ?st] show ?thesis by auto
qed

end
