(* ===== verification/Api_View.thy ===== *)
theory Api_View
  imports Service Api_Analysis
begin

text \<open>
  What the API gateway makes of the causal graph and of the window, \<open>src/api/main.py\<close>: the view with
  pods collapsed to workloads, the verdict's signature, the narrative with its cache, and the per-workload
  level and series. The language model is a parameter: given the resource word and the view it answers a
  text or nothing. Narrative texts are lists of structured sentences.
\<close>

section \<open>The normalized graph\<close>

record vedge =
  ve_src :: workload
  ve_dst :: workload
  ve_r :: real
  ve_lag :: nat
  ve_evidence :: "ev list"
  ve_signal :: string
  ve_conf :: "real option"
  ve_state :: "estate option"
  ve_origin :: "origin option"

record view =
  vw_root :: "root_cause list"
  vw_edges :: "vedge list"
  vw_blast :: "victim list"
  vw_findings :: "(workload \<times> shape \<times> real \<times> real) list"
  vw_incip :: "incipient list"
  vw_meta :: "mmeta option"

definition view_edge :: "tedge \<Rightarrow> vedge" where
  "view_edge e = \<lparr>ve_src = stable_workload (e_src e), ve_dst = stable_workload (e_dst e), ve_r = e_r e, ve_lag = e_lag e,
     ve_evidence = e_evidence e, ve_signal = e_signal e, ve_conf = x_conf e, ve_state = x_state e, ve_origin = x_origin e\<rparr>"

definition view_of :: "served \<Rightarrow> view" where
  "view_of s =
     (case s of
        Failed e \<Rightarrow> \<lparr>vw_root = [], vw_edges = [], vw_blast = [], vw_findings = [], vw_incip = [], vw_meta = None\<rparr>
      | Graph m inc \<Rightarrow>
          \<lparr>vw_root = List.map (\<lambda>r. r\<lparr>rc_pod := stable_workload (rc_pod r)\<rparr>) (mg_ranking m),
           vw_edges = List.map view_edge (mg_edges m),
           vw_blast = List.map (\<lambda>b. b\<lparr>v_pod := stable_workload (v_pod b)\<rparr>) (mg_blast m),
           vw_findings = List.map (\<lambda>f. (stable_workload (f_pod f), f_class f, f_onset_s f, f_severity f)) (mg_findings m),
           vw_incip = List.map (\<lambda>i. i\<lparr>i_pod := stable_workload (i_pod i)\<rparr>) inc,
           vw_meta = Some (mg_meta m)\<rparr>)"

datatype 'a reply = Reply 'a | HttpError nat

definition graph_reply :: "served option \<Rightarrow> view reply" where
  "graph_reply fetched = (case fetched of None \<Rightarrow> HttpError 503 | Some s \<Rightarrow> Reply (view_of s))"

section \<open>The narrative\<close>

fun state_name :: "estate \<Rightarrow> string" where
  "state_name Steady = ''steady''"
| "state_name Active = ''active''"
| "state_name Confirming = ''confirming''"
| "state_name Decaying = ''decaying''"
| "state_name Hidden = ''hidden''"

record signature =
  sg_root :: "workload option"
  sg_edges :: "(workload \<times> workload \<times> string option) list"
  sg_case :: "register option"

definition case_register :: "view \<Rightarrow> register option" where
  "case_register g = (case vw_meta g of None \<Rightarrow> None | Some mt \<Rightarrow> map_option cv_register (mg_case mt))"

text \<open>Sorting the triples compares a missing state with a present one, a \<open>TypeError\<close>, exactly when two
  triples differ only in that.\<close>

definition state_clash :: "(workload \<times> workload \<times> string option) list \<Rightarrow> bool" where
  "state_clash ts = list_ex (\<lambda>(s, d, x). x = None \<and> list_ex (\<lambda>(s', d', y). s' = s \<and> d' = d \<and> y \<noteq> None) ts) ts"

definition verdict_signature :: "view \<Rightarrow> signature outcome" where
  "verdict_signature g =
     (let ts = List.map (\<lambda>e. (ve_src e, ve_dst e, map_option state_name (ve_state e))) (vw_edges g) in
      if state_clash ts then Raise TypeError
      else Ret \<lparr>sg_root = (case vw_root g of [] \<Rightarrow> None | r # _ \<Rightarrow> Some (rc_pod r)),
                sg_edges = sort_key (\<lambda>(s, d, x). (s, d, case x of None \<Rightarrow> [] | Some y \<Rightarrow> y)) ts,
                sg_case = case_register g\<rparr>)"

datatype sentence =
    SteadyState nat
  | Cause workload "string option" workload "ev list" "nat option" "register option"
  | OomWarning workload quantity quantity int
  | LlmText string

definition DEFAULT_SIGNAL :: string where "DEFAULT_SIGNAL = ''psi_io''"

definition meta_label :: "view \<Rightarrow> string option" where
  "meta_label g = (case vw_meta g of None \<Rightarrow> Some DEFAULT_SIGNAL | Some mt \<Rightarrow> mg_label mt)"

text \<open>The deterministic sentence: the strongest edge leaving the root, or the strongest of all.\<close>

definition template_narrative :: "view \<Rightarrow> sentence" where
  "template_narrative g =
     (case (vw_root g, vw_edges g) of
        (r # _, e # es) \<Rightarrow>
          (let cause = rc_pod r;
               out = (case filter (\<lambda>e. ve_src e = cause) (e # es) of [] \<Rightarrow> e # es | xs \<Rightarrow> xs);
               best = max_by (\<lambda>x. \<bar>ve_r x\<bar>) (hd out) (tl out);
               eta = map_of (dict_of (List.map (\<lambda>b. (v_pod b, v_eta b)) (vw_blast g))) (ve_dst best)
           in Cause cause (meta_label g) (ve_dst best) (ve_evidence best)
                (case eta of Some t \<Rightarrow> if t = 0 then None else Some t | None \<Rightarrow> None)
                (case case_register g of Some Novel \<Rightarrow> None | reg \<Rightarrow> reg))
      | _ \<Rightarrow> SteadyState (case vw_meta g of None \<Rightarrow> 0 | Some mt \<Rightarrow> mg_pods mt))"

definition incipient_text :: "incipient \<Rightarrow> incipient list \<Rightarrow> sentence" where
  "incipient_text i is =
     (let f = min_by i_eta i is
      in OomWarning (i_pod f) (fmt_mem (of_int (i_value f))) (fmt_mem (of_int (i_limit f))) \<lfloor>i_eta f\<rfloor>)"

definition SIGNAL_RESOURCE :: "(string, string) dict" where
  "SIGNAL_RESOURCE = [(''psi_io'', ''disk I/O''), (''psi_cpu'', ''CPU''), (''psi_mem'', ''memory'')]"

definition resource_word :: "view \<Rightarrow> string" where
  "resource_word g =
     (let own = (case vw_root g of [] \<Rightarrow> []
                 | r # _ \<Rightarrow> filter (\<lambda>e. ve_src e = rc_pod r \<and> ve_signal e \<noteq> []) (vw_edges g));
          active = (case own of e # _ \<Rightarrow> Some (ve_signal e) | [] \<Rightarrow> meta_label g)
      in case active of None \<Rightarrow> ''resource'' | Some s \<Rightarrow> dict_get SIGNAL_RESOURCE s ''resource'')"

datatype source = FromForecast | FromSteady | FromLlm | FromFallback

record narrative =
  na_text :: "sentence list"
  na_source :: source

type_synonym cache = "(signature, narrative) dict"
type_synonym llm = "string \<Rightarrow> view \<Rightarrow> string option"

definition forecast_suffix :: "view \<Rightarrow> sentence list" where
  "forecast_suffix g = (case vw_incip g of [] \<Rightarrow> [] | i # is \<Rightarrow> [incipient_text i is])"

definition narrate :: "llm \<Rightarrow> view \<Rightarrow> cache \<Rightarrow> narrative reply \<times> cache" where
  "narrate llm g cache =
     (if vw_root g = [] then
        (Reply (case vw_incip g of
                  i # is \<Rightarrow> \<lparr>na_text = [incipient_text i is], na_source = FromForecast\<rparr>
                | [] \<Rightarrow> \<lparr>na_text = [template_narrative g], na_source = FromSteady\<rparr>), cache)
      else (case verdict_signature g of
              Ret sig \<Rightarrow>
                (case map_of cache sig of
                   Some c \<Rightarrow> (Reply (c\<lparr>na_text := na_text c @ forecast_suffix g\<rparr>), cache)
                 | None \<Rightarrow>
                     (let txt = llm (resource_word g) g;
                          out = (case txt of Some t \<Rightarrow> \<lparr>na_text = [LlmText t], na_source = FromLlm\<rparr>
                                 | None \<Rightarrow> \<lparr>na_text = [template_narrative g], na_source = FromFallback\<rparr>)
                      in (Reply (out\<lparr>na_text := na_text out @ forecast_suffix g\<rparr>),
                          (if txt \<noteq> None then [(sig, out)] else cache))))
            | _ \<Rightarrow> (HttpError 500, cache)))"

definition narrative_reply :: "llm \<Rightarrow> served option \<Rightarrow> cache \<Rightarrow> narrative reply \<times> cache" where
  "narrative_reply llm fetched cache =
     (case graph_reply fetched of Reply g \<Rightarrow> narrate llm g cache | HttpError c \<Rightarrow> (HttpError c, cache))"

section \<open>Levels and series\<close>

record pod_level =
  pl_workload :: workload
  pl_ns :: string
  pl_signal :: string
  pl_value :: real
  pl_anomalous :: bool

definition last_value :: "sample list \<Rightarrow> real outcome" where
  "last_value samples = (case sm_value (last samples) of None \<Rightarrow> Raise KeyError | Some v \<Rightarrow> Ret v)"

definition level_step ::
  "string list \<Rightarrow> workload set \<Rightarrow> string \<times> sample list \<Rightarrow> (workload, pod_level) dict \<Rightarrow> (workload, pod_level) dict outcome" where
  "level_step signals flagged entry out =
     (let parts = py_split (CHR ''/'') (fst entry) in
      if length parts < 3 \<or> last parts \<notin> set signals \<or> snd entry = [] then Ret out
      else obind (last_value (snd entry)) (\<lambda>val.
        let w = stable_workload (parts ! 1);
            cur = dict_get out w \<lparr>pl_workload = w, pl_ns = hd parts, pl_signal = last parts, pl_value = 0, pl_anomalous = False\<rparr>;
            cur = (if val \<ge> pl_value cur then cur\<lparr>pl_value := py_round 4 val, pl_signal := last parts\<rparr> else cur)
        in Ret (AList.update w (cur\<lparr>pl_anomalous := (w \<in> flagged)\<rparr>) out)))"

fun levels :: "string list \<Rightarrow> workload set \<Rightarrow> window \<Rightarrow> (workload, pod_level) dict \<Rightarrow> (workload, pod_level) dict outcome" where
  "levels signals flagged [] out = Ret out"
| "levels signals flagged (entry # rest) out = obind (level_step signals flagged entry out) (levels signals flagged rest)"

definition flagged_workloads :: "served option \<Rightarrow> workload set" where
  "flagged_workloads fetched =
     (case fetched of Some (Graph m inc) \<Rightarrow> set (List.map (\<lambda>f. stable_workload (f_pod f)) (mg_findings m)) | _ \<Rightarrow> {})"

definition pods_reply :: "string list \<Rightarrow> window option \<Rightarrow> served option \<Rightarrow> pod_level list reply" where
  "pods_reply signals window fetched =
     (case window of None \<Rightarrow> HttpError 503
      | Some win \<Rightarrow>
          (case levels signals (flagged_workloads fetched) win [] of
             Ret out \<Rightarrow> Reply (sort_key (\<lambda>p. - pl_value p) (List.map snd out))
           | _ \<Rightarrow> HttpError 500))"

definition signal_reply :: "window option \<Rightarrow> workload \<Rightarrow> string \<Rightarrow> sample list reply" where
  "signal_reply window wl sig =
     (case window of None \<Rightarrow> HttpError 503
      | Some win \<Rightarrow>
          (case filter (\<lambda>(key, samples). let parts = py_split (CHR ''/'') key in
                  length parts \<ge> 3 \<and> last parts = sig \<and> samples \<noteq> [] \<and> stable_workload (parts ! 1) = wl) win of
             [] \<Rightarrow> HttpError 404
           | (key, samples) # _ \<Rightarrow> (if list_all (\<lambda>s. sm_value s \<noteq> None) samples then Reply samples else HttpError 500)))"

section \<open>Lemmas: the signature\<close>

lemma signature_returns:
  assumes "served_ok s"
  shows "\<exists>sig. verdict_signature (view_of s) = Ret sig"
proof -
  have "ve_state e \<noteq> None" if "e \<in> set (vw_edges (view_of s))" for e
    using that assms by (auto simp: view_of_def served_ok_def graph_ok_def view_edge_def split: served.splits)
  then have "\<not> state_clash (List.map (\<lambda>e. (ve_src e, ve_dst e, map_option state_name (ve_state e))) (vw_edges (view_of s)))"
    by (auto simp: state_clash_def list_ex_iff)
  then show ?thesis by (simp add: verdict_signature_def Let_def)
qed

lemma narrate_answers:
  assumes "vw_root g = [] \<or> verdict_signature g = Ret sig"
  shows "\<exists>n cache'. narrate llm g cache = (Reply n, cache')"
  using assms by (cases "vw_root g = []") (auto simp: narrate_def Let_def split: option.split)

section \<open>Lemmas: the cache\<close>

text \<open>The caches of a running gateway, when \<open>asked\<close> is what the model may answer.\<close>

inductive cache_reach :: "(string \<Rightarrow> view \<Rightarrow> string \<Rightarrow> bool) \<Rightarrow> cache \<Rightarrow> bool" for asked where
  empty: "cache_reach asked []"
| ask: "cache_reach asked c \<Longrightarrow> (\<And>r g t. llm r g = Some t \<Longrightarrow> asked r g t) \<Longrightarrow>
    cache_reach asked (snd (narrative_reply llm fetched c))"

definition cache_ok :: "(string \<Rightarrow> view \<Rightarrow> string \<Rightarrow> bool) \<Rightarrow> cache \<Rightarrow> bool" where
  "cache_ok asked c \<longleftrightarrow> length c \<le> 1 \<and> (\<forall>(sig, n) \<in> set c. \<exists>g t. vw_root g \<noteq> [] \<and> verdict_signature g = Ret sig \<and>
     asked (resource_word g) g t \<and> n = \<lparr>na_text = [LlmText t], na_source = FromLlm\<rparr>)"

lemma narrate_cache:
  "snd (narrate llm g c) = c \<or>
   (\<exists>sig t. vw_root g \<noteq> [] \<and> verdict_signature g = Ret sig \<and> llm (resource_word g) g = Some t \<and>
      snd (narrate llm g c) = [(sig, \<lparr>na_text = [LlmText t], na_source = FromLlm\<rparr>)])"
  by (auto simp: narrate_def Let_def split: outcome.split option.split)

lemma cache_reach_ok: "cache_reach asked c \<Longrightarrow> cache_ok asked c"
proof (induction rule: cache_reach.induct)
  case (ask c llm fetched)
  show ?case
  proof (cases "graph_reply fetched")
    case (Reply g)
    then have eq: "narrative_reply llm fetched c = narrate llm g c" by (simp add: narrative_reply_def)
    show ?thesis unfolding eq using narrate_cache[of llm g c]
    proof
      assume "snd (narrate llm g c) = c"
      then show "cache_ok asked (snd (narrate llm g c))" using ask.IH by simp
    next
      assume "\<exists>sig t. vw_root g \<noteq> [] \<and> verdict_signature g = Ret sig \<and> llm (resource_word g) g = Some t \<and>
        snd (narrate llm g c) = [(sig, \<lparr>na_text = [LlmText t], na_source = FromLlm\<rparr>)]"
      then show "cache_ok asked (snd (narrate llm g c))" using ask.hyps(2) by (fastforce simp: cache_ok_def)
    qed
  qed (use ask.IH in \<open>simp add: narrative_reply_def\<close>)
qed (simp add: cache_ok_def)

section \<open>Lemmas: levels\<close>

lemma py_round_idem: "py_round n (py_round n x) = py_round n x"
  by (simp add: py_round_def)

definition level_of :: "string list \<Rightarrow> string \<times> sample list \<Rightarrow> (workload \<times> string \<times> real) option" where
  "level_of signals entry =
     (let parts = py_split (CHR ''/'') (fst entry) in
      if length parts < 3 \<or> last parts \<notin> set signals \<or> snd entry = [] then None
      else map_option (\<lambda>v. (stable_workload (parts ! 1), last parts, v)) (sm_value (last (snd entry))))"

definition level_ok :: "string list \<Rightarrow> workload set \<Rightarrow> window \<Rightarrow> pod_level \<Rightarrow> bool" where
  "level_ok signals flagged es row \<longleftrightarrow> (pl_anomalous row \<longleftrightarrow> pl_workload row \<in> flagged) \<and> py_round 4 (pl_value row) = pl_value row \<and>
     (pl_value row = 0 \<or> (\<exists>e \<in> set es. \<exists>v. level_of signals e = Some (pl_workload row, pl_signal row, v) \<and> pl_value row = py_round 4 v))"

definition lev_inv :: "string list \<Rightarrow> workload set \<Rightarrow> window \<Rightarrow> (workload, pod_level) dict \<Rightarrow> bool" where
  "lev_inv signals flagged es out \<longleftrightarrow> distinct (keys out) \<and>
     (\<forall>(w, row) \<in> set out. pl_workload row = w \<and> level_ok signals flagged es row) \<and>
     (\<forall>e \<in> set es. \<forall>w s v. level_of signals e = Some (w, s, v) \<longrightarrow> (\<exists>row. map_of out w = Some row \<and> py_round 4 v \<le> pl_value row))"

lemma level_ok_mono: "level_ok signals flagged es row \<Longrightarrow> level_ok signals flagged (es @ [e]) row"
  by (auto simp: level_ok_def)

lemma level_step_cases:
  assumes "level_step signals flagged e out = Ret out'"
  obtains (skip) "out' = out" "level_of signals e = None"
  | (put) w sg v cur where "level_of signals e = Some (w, sg, v)"
    "(map_of out w = Some cur) \<or> (map_of out w = None \<and> pl_workload cur = w \<and> pl_value cur = 0)"
    "out' = AList.update w ((if v \<ge> pl_value cur then cur\<lparr>pl_value := py_round 4 v, pl_signal := sg\<rparr> else cur)\<lparr>pl_anomalous := (w \<in> flagged)\<rparr>) out"
proof (cases "length (py_split (CHR ''/'') (fst e)) < 3 \<or> last (py_split (CHR ''/'') (fst e)) \<notin> set signals \<or> snd e = []")
  case True
  then show thesis using assms skip by (auto simp: level_step_def level_of_def Let_def)
next
  case False
  let ?w = "stable_workload (py_split (CHR ''/'') (fst e) ! 1)" and ?sg = "last (py_split (CHR ''/'') (fst e))"
  let ?cur = "dict_get out ?w \<lparr>pl_workload = ?w, pl_ns = hd (py_split (CHR ''/'') (fst e)), pl_signal = ?sg, pl_value = 0, pl_anomalous = False\<rparr>"
  from False assms obtain v where v: "sm_value (last (snd e)) = Some v"
    by (auto simp: level_step_def last_value_def Let_def outcome_simps split: option.splits)
  have "level_of signals e = Some (?w, ?sg, v)" using False v by (simp add: level_of_def Let_def)
  moreover have "map_of out ?w = Some ?cur \<or> (map_of out ?w = None \<and> pl_workload ?cur = ?w \<and> pl_value ?cur = 0)"
    by (auto simp: dict_get_def split: option.split)
  moreover have "out' = AList.update ?w ((if v \<ge> pl_value ?cur then ?cur\<lparr>pl_value := py_round 4 v, pl_signal := ?sg\<rparr> else ?cur)
      \<lparr>pl_anomalous := (?w \<in> flagged)\<rparr>) out"
    using assms False v by (auto simp: level_step_def last_value_def Let_def)
  ultimately show thesis by (rule put)
qed

lemma lev_inv_step:
  assumes inv: "lev_inv signals flagged es out" and step: "level_step signals flagged e out = Ret out'"
  shows "lev_inv signals flagged (es @ [e]) out'"
  using step
proof (cases rule: level_step_cases)
  case skip
  with inv show ?thesis by (fastforce simp: lev_inv_def level_ok_mono)
next
  case (put w sg v cur)
  let ?new = "(if v \<ge> pl_value cur then cur\<lparr>pl_value := py_round 4 v, pl_signal := sg\<rparr> else cur)\<lparr>pl_anomalous := (w \<in> flagged)\<rparr>"
  have cur: "pl_workload cur = w \<and> py_round 4 (pl_value cur) = pl_value cur \<and>
      (pl_value cur = 0 \<or> (\<exists>e' \<in> set es. \<exists>v. level_of signals e' = Some (w, pl_signal cur, v) \<and> pl_value cur = py_round 4 v))"
    using put(2)
  proof
    assume "map_of out w = Some cur"
    from map_of_SomeD[OF this] inv have "pl_workload cur = w" "level_ok signals flagged es cur" unfolding lev_inv_def by blast+
    then show ?thesis by (auto simp: level_ok_def)
  qed auto
  have val: "pl_value cur \<le> pl_value ?new" "py_round 4 v \<le> pl_value ?new"
    using py_round_mono[of "pl_value cur" v 4] py_round_mono[of v "pl_value cur" 4] cur by auto
  have new: "pl_workload ?new = w" "level_ok signals flagged (es @ [e]) ?new"
    using cur put(1) by (auto simp: level_ok_def py_round_idem)
  have A: "pl_workload row = w' \<and> level_ok signals flagged (es @ [e]) row" if "(w', row) \<in> set out'" for w' row
  proof -
    have "(w', row) = (w, ?new) \<or> (w', row) \<in> set out" using that set_update[of w ?new out] unfolding put(3) by blast
    then show ?thesis
    proof
      assume "(w', row) \<in> set out"
      with inv have "pl_workload row = w'" "level_ok signals flagged es row" unfolding lev_inv_def by blast+
      then show ?thesis using level_ok_mono by blast
    qed (use new in simp)
  qed
  have B: "\<exists>row. map_of out' w' = Some row \<and> py_round 4 v' \<le> pl_value row"
    if "e' \<in> set (es @ [e])" "level_of signals e' = Some (w', s', v')" for e' w' s' v'
  proof (cases "e' = e")
    case True
    then show ?thesis using that(2) put(1) val(2) unfolding put(3) by simp
  next
    case False
    then have "e' \<in> set es" using that(1) by simp
    with inv that(2) obtain row where "map_of out w' = Some row" "py_round 4 v' \<le> pl_value row" unfolding lev_inv_def by blast
    then show ?thesis using put(2) val(1) unfolding put(3) by (cases "w' = w") auto
  qed
  have D: "distinct (keys out')" using inv unfolding put(3) lev_inv_def by (auto intro: distinct_update)
  show ?thesis unfolding lev_inv_def using A B D by blast
qed

lemma lev_inv_levels:
  "lev_inv signals flagged es out \<Longrightarrow> levels signals flagged rest out = Ret out' \<Longrightarrow> lev_inv signals flagged (es @ rest) out'"
proof (induction rest arbitrary: es out)
  case (Cons e rest)
  then obtain out1 where "level_step signals flagged e out = Ret out1" "levels signals flagged rest out1 = Ret out'"
    by (auto simp: outcome_simps)
  with Cons.IH[OF lev_inv_step[OF Cons.prems(1)]] show ?case by fastforce
qed simp

section \<open>Properties\<close>

text \<open>C34. The verdict never depends on the model. Whatever the service can serve in any reachable state, any
  model, silent or not, and any cache get an answer, not an error; and when there is no root cause
  the model is not asked: the answer is the forecast or the steady line, the same for every model,
  and the cache is left alone.\<close>

theorem narrative_always_answers:
  assumes "digraph_laws (lb_nx lb)" "corr_bounded (lb_np lb)" "settings_ok st" "serve_reach st lb s"
  shows "\<exists>n cache'. narrative_reply llm (Some (s_graph s)) cache = (Reply n, cache') \<and>
    (vw_root (view_of (s_graph s)) = [] \<longrightarrow> cache' = cache \<and> na_source n \<in> {FromSteady, FromForecast} \<and>
       (\<forall>llm'. narrative_reply llm' (Some (s_graph s)) cache = (Reply n, cache)))"
proof -
  have "served_ok (s_graph s)" using serve_reach_ok[OF assms] by blast
  from signature_returns[OF this] obtain sig where "verdict_signature (view_of (s_graph s)) = Ret sig" by blast
  then obtain n cache' where n: "narrate llm (view_of (s_graph s)) cache = (Reply n, cache')"
    using narrate_answers by blast
  have "cache' = cache \<and> na_source n \<in> {FromSteady, FromForecast} \<and> (\<forall>llm'. narrate llm' (view_of (s_graph s)) cache = (Reply n, cache))"
    if "vw_root (view_of (s_graph s)) = []"
    using n that by (auto simp: narrate_def split: list.split)
  with n show ?thesis by (simp add: narrative_reply_def graph_reply_def)
qed

theorem narrative_always_answers_witness:
  "\<exists>s n cache'. serve_reach default_settings demo_libs s \<and> narrative_reply (\<lambda>_ _. None) (Some (s_graph s)) [] = (Reply n, cache')"
proof -
  obtain s where s: "serve_reach default_settings demo_libs s" using demo_start by blast
  have "digraph_laws (lb_nx demo_libs)" "corr_bounded (lb_np demo_libs)"
    using log_nx_laws quick_num_corr_bounded by (simp_all add: demo_libs_def)
  from narrative_always_answers[OF this default_settings_ok s, of "\<lambda>_ _. None" "[]"] s show ?thesis by blast
qed

text \<open>A cached answer fits the verdict it is given for. Along any history the cache holds at most one
  answer, and it is the model's own text for a graph with exactly the signature it is stored under:
  the same root, the same edges with the same states and the same case; fallback texts are never kept.\<close>

theorem cached_text_fits_verdict:
  assumes "cache_reach asked c"
  shows "length c \<le> 1 \<and> (\<forall>(sig, n) \<in> set c. \<exists>g t. vw_root g \<noteq> [] \<and> verdict_signature g = Ret sig \<and>
    asked (resource_word g) g t \<and> n = \<lparr>na_text = [LlmText t], na_source = FromLlm\<rparr>)"
  using cache_reach_ok[OF assms] by (simp add: cache_ok_def)

definition demo_served :: served where
  "demo_served = (case merge_graphs log_nx io_only None of Ret m \<Rightarrow> Graph m [] | _ \<Rightarrow> Failed OSError)"

theorem cached_text_fits_verdict_witness:
  "length (snd (narrative_reply (\<lambda>_ _. Some ''disk'') (Some demo_served) [])) \<le> 1"
proof -
  have "cache_reach (\<lambda>_ _ t. t = ''disk'') (snd (narrative_reply (\<lambda>_ _. Some ''disk'') (Some demo_served) []))"
    by (rule cache_reach.ask[OF cache_reach.empty]) simp
  from cached_text_fits_verdict[OF this] show ?thesis by blast
qed

text \<open>The pod list shows the hottest signal: one row per workload, hottest first, flagged exactly when the
  engine has a finding for it; every level read for a workload is at most the value shown (rounded to
  four digits), and a value shown is 0 or was read for that workload and signal.\<close>

theorem pods_show_hottest:
  assumes "pods_reply signals (Some win) fetched = Reply rows"
  shows "distinct (List.map pl_workload rows) \<and> sorted_wrt (\<lambda>p q. pl_value q \<le> pl_value p) rows \<and>
    (\<forall>row \<in> set rows. level_ok signals (flagged_workloads fetched) win row) \<and>
    (\<forall>e \<in> set win. \<forall>w sg v. level_of signals e = Some (w, sg, v) \<longrightarrow>
       (\<exists>row \<in> set rows. pl_workload row = w \<and> py_round 4 v \<le> pl_value row))"
proof -
  obtain out where out: "levels signals (flagged_workloads fetched) win [] = Ret out"
    and rows: "rows = sort_key (\<lambda>p. - pl_value p) (List.map snd out)"
    using assms by (auto simp: pods_reply_def split: outcome.splits)
  have "lev_inv signals (flagged_workloads fetched) [] []" by (simp add: lev_inv_def)
  from lev_inv_levels[OF this out] have inv: "lev_inv signals (flagged_workloads fetched) win out" by simp
  then have row: "\<And>w row. (w, row) \<in> set out \<Longrightarrow> pl_workload row = w \<and> level_ok signals (flagged_workloads fetched) win row"
    unfolding lev_inv_def by blast
  have "List.map pl_workload (List.map snd out) = keys out"
    unfolding map_map comp_def by (rule map_cong[OF refl]) (use row in force)
  moreover have "mset (List.map pl_workload rows) = mset (List.map pl_workload (List.map snd out))"
    by (simp add: rows image_mset.compositionality)
  ultimately have "distinct (List.map pl_workload rows)"
    using inv unfolding lev_inv_def by (metis mset_eq_imp_distinct_iff)
  moreover have "sorted_wrt (\<lambda>p q. pl_value q \<le> pl_value p) rows"
    unfolding rows by (rule sorted_wrt_mono_rel[OF _ sort_key_sorted_wrt]) auto
  moreover have "level_ok signals (flagged_workloads fetched) win x" if "x \<in> set rows" for x
    using that row unfolding rows by auto
  moreover have "\<exists>x \<in> set rows. pl_workload x = w \<and> py_round 4 v \<le> pl_value x"
    if e: "e \<in> set win" "level_of signals e = Some (w, sg, v)" for e w sg v
  proof -
    obtain x where x: "map_of out w = Some x" "py_round 4 v \<le> pl_value x" using inv e unfolding lev_inv_def by blast
    from map_of_SomeD[OF x(1)] row x(2) show ?thesis unfolding rows by force
  qed
  ultimately show ?thesis by blast
qed

theorem pods_show_hottest_witness:
  "\<exists>row. pods_reply [''psi_io''] (Some demo_window) None = Reply [row] \<and> \<not> pl_anomalous row"
proof -
  have "(case pods_reply [''psi_io''] (Some demo_window) None of Reply rows \<Rightarrow> length rows = 1 | _ \<Rightarrow> False)" by code_simp
  then obtain row where row: "pods_reply [''psi_io''] (Some demo_window) None = Reply [row]"
    by (auto simp: length_Suc_conv split: reply.splits)
  from pods_show_hottest[OF row] row show ?thesis by (simp add: level_ok_def flagged_workloads_def)
qed

end
