(* ===== verification/Quiet.thy ===== *)
theory Quiet
  imports Api_View
begin

text \<open>
  Silence of the whole engine, composed from the pass, the memory, the merge, the service loop and the
  gateway: what a round does when every pod is within its learned band or shows no strong onset, and why a
  service that has just been started on empty databases is silent until its baselines have matured. The
  theory adds no code of its own: it states the composition.
\<close>

section \<open>Quiet rounds\<close>

text \<open>A signal is quiet when no pod of it has a strong onset outside the band its memory has learned.\<close>

definition quiet_signal :: "settings \<Rightarrow> 'g libs \<Rightarrow> (string, vectors) dict \<Rightarrow> string \<Rightarrow> memory \<Rightarrow> bool" where
  "quiet_signal st lb vecs sig m \<longleftrightarrow>
     (\<forall>(p, vec) \<in> set (dict_get vecs sig []). strong_onsets (lb_np lb) vec = [] \<or>
        in_band (lb_np lb) (Some (thresholds (config_for st sig) m (dict_get vecs sig []))) (sv_recent st) p vec)"

definition quiet :: "settings \<Rightarrow> 'g libs \<Rightarrow> (string, vectors) dict \<Rightarrow> memories \<Rightarrow> bool" where
  "quiet st lb vecs mems \<longleftrightarrow>
     (\<forall>sig \<in> set (sv_signals st). \<forall>m. map_of mems sig = Some m \<longrightarrow> quiet_signal st lb vecs sig m)"

text \<open>A merged graph without a verdict: what is drawn is remembered, not live.\<close>

definition no_verdict :: "mgraph \<Rightarrow> bool" where
  "no_verdict m \<longleftrightarrow> mg_findings m = [] \<and> mg_ranking m = [] \<and> mg_blast m = [] \<and> mg_case (mg_meta m) = None \<and>
     (\<forall>e \<in> set (mg_edges m). x_origin e = Some origin.Memory)"

definition quiet_graph :: "rgraph \<Rightarrow> bool" where
  "quiet_graph g \<longleftrightarrow> rg_findings g = [] \<and> (\<forall>e \<in> set (rg_edges g). x_origin e = Some origin.Memory)"

lemma held_edges_remembered: "e \<in> set (held_edges cfg t vectors now es) \<Longrightarrow> x_origin e = Some origin.Memory"
  by (auto simp: held_edges_def somes_def held_edge_def Let_def split: option.splits)

lemma render_quiet:
  "g_findings g = [] \<Longrightarrow> g_edges g = [] \<Longrightarrow> \<exists>rg. render nx cfg m g vectors now v = Ret rg \<and> quiet_graph rg"
  by (auto simp: render_def rerank_def render_edges_def quiet_graph_def Let_def dest: held_edges_remembered)

lemma observe_quiet:
  assumes "g_ranking g = []" "observe_memory np digest cfg g vectors w ts m = (v, m')"
  shows "v = None \<and> mm_lib m' = mm_lib m \<and> mm_baselines m' = update_baselines np cfg vectors ts (mm_baselines m)"
  using assms by (auto simp: observe_memory_def Let_def promote_case_def incident_of_def)

lemma quiet_pass:
  assumes "digraph_laws (lb_nx lb)" "inputs_sized vecs" "quiet_signal st lb vecs sig m"
  shows "\<exists>m' g. signal_pass st lb vecs breach ts now sig m = (m', Ret g) \<and> quiet_graph g \<and> mm_lib m' = mm_lib m \<and>
    mm_baselines m' = update_baselines (lb_np lb) (config_for st sig) (dict_get vecs sig []) ts (mm_baselines m)"
proof -
  let ?cfg = "config_for st sig" and ?vs = "dict_get vecs sig []"
  let ?wvs = "case map_of SIGNAL_SOURCES sig of None \<Rightarrow> [] | Some src \<Rightarrow> dict_get vecs src []"
  have s: "sized GRID_N ?vs" "sized GRID_N ?wvs"
    using assms(2) by (auto simp: inputs_sized_def sized_def[of _ "[]"] split: option.split)
  have "0 < GRID_N" by (simp add: GRID_N_def)
  from witness_returns[OF s(1) this] obtain w where w: "witness_for st sig ?vs = Ret w" by blast
  have "\<And>vs :: vectors. sized GRID_N vs \<Longrightarrow> \<forall>(p, wv) \<in> set vs. wv \<noteq> []" using \<open>0 < GRID_N\<close> by (fastforce simp: sized_def)
  from this[OF s(2)] have "\<forall>(p, wv) \<in> set ?wvs. wv \<noteq> []" .
  from run_pass_silent[OF assms(1) _ this, of ?vs "lb_np lb" "Some (thresholds ?cfg m ?vs)" "sv_recent st" w breach "[]" "sv_window st"]
  obtain g where g: "run_pass (lb_np lb) (lb_nx lb) ?vs w breach [] (sv_window st) ?wvs (Some (thresholds ?cfg m ?vs)) (sv_recent st) = Ret g"
    "g_findings g = []" "g_edges g = []" "g_ranking g = []"
    using assms(3) unfolding quiet_signal_def by auto
  obtain v m' where o: "observe_memory (lb_np lb) (lb_digest lb) ?cfg g ?vs (Some w) ts m = (v, m')"
    by (cases "observe_memory (lb_np lb) (lb_digest lb) ?cfg g ?vs (Some w) ts m")
  obtain rg where "render (lb_nx lb) ?cfg m' g ?vs now v = Ret rg" "quiet_graph rg" using render_quiet[OF g(2,3)] by blast
  with observe_quiet[OF g(4) o] g(1) w o show ?thesis by (auto simp: signal_pass_def Let_def)
qed

text \<open>What a round leaves of a memory it may have passed: the case library, and baselines that are
  unchanged or have learned this round's vectors.\<close>

definition passed_over :: "settings \<Rightarrow> 'g libs \<Rightarrow> (string, vectors) dict \<Rightarrow> real \<Rightarrow> string \<Rightarrow> memory \<Rightarrow> memory \<Rightarrow> bool" where
  "passed_over st lb vecs ts sig m m' \<longleftrightarrow> mm_lib m' = mm_lib m \<and>
     mm_baselines m' \<in> {mm_baselines m,
       update_baselines (lb_np lb) (config_for st sig) (dict_get vecs sig []) ts (mm_baselines m)}"

lemma quiet_passes:
  assumes "digraph_laws (lb_nx lb)" "inputs_sized vecs"
    and "\<forall>sig \<in> set sigs. \<exists>m. map_of mems sig = Some m \<and> quiet_signal st lb vecs sig m"
    and "distinct sigs" "\<forall>(s, g) \<in> set ps. quiet_graph g"
  shows "\<exists>mems' ps'. signal_passes st lb vecs breach ts now sigs mems ps = (mems', Ret ps') \<and> (\<forall>(s, g) \<in> set ps'. quiet_graph g) \<and>
    (\<forall>s. s \<notin> set sigs \<longrightarrow> map_of mems' s = map_of mems s) \<and>
    (\<forall>s. rel_option (passed_over st lb vecs ts s) (map_of mems s) (map_of mems' s))"
  using assms(3-5)
proof (induction sigs arbitrary: mems ps)
  case Nil
  have "rel_option (passed_over st lb vecs ts s) x x" for s x by (cases x) (simp_all add: passed_over_def)
  with Nil show ?case by simp
next
  case (Cons sig sigs)
  show ?case
  proof (cases "dict_get vecs sig [] = []")
    case False
    obtain m where m: "map_of mems sig = Some m" "quiet_signal st lb vecs sig m" using Cons.prems(1) by auto
    from quiet_pass[OF assms(1,2) m(2), of breach ts now] obtain m' g where
      p: "signal_pass st lb vecs breach ts now sig m = (m', Ret g)" "quiet_graph g" "passed_over st lb vecs ts sig m m'"
      unfolding passed_over_def by blast
    have "\<forall>s \<in> set sigs. \<exists>x. map_of (AList.update sig m' mems) s = Some x \<and> quiet_signal st lb vecs s x"
      using Cons.prems(1,2) by auto
    moreover have "\<forall>(s, g) \<in> set (AList.update sig g ps). quiet_graph g"
      using Cons.prems(3) p(2) by (auto dest!: update_mem)
    ultimately obtain mems' ps' where q:
      "signal_passes st lb vecs breach ts now sigs (AList.update sig m' mems) (AList.update sig g ps) = (mems', Ret ps')"
      "\<forall>(s, g) \<in> set ps'. quiet_graph g"
      "\<And>s. s \<notin> set sigs \<Longrightarrow> map_of mems' s = map_of (AList.update sig m' mems) s"
      "\<And>s. rel_option (passed_over st lb vecs ts s) (map_of (AList.update sig m' mems) s) (map_of mems' s)"
      using Cons.IH[of "AList.update sig m' mems" "AList.update sig g ps"] Cons.prems(2) by auto
    have "rel_option (passed_over st lb vecs ts s) (map_of mems s) (map_of mems' s)" for s
      using q(3)[of sig] q(4)[of s] p(3) m(1) Cons.prems(2) by (cases "s = sig") auto
    with False m(1) p(1) q(1-3) show ?thesis by auto
  next
    case True
    then show ?thesis using Cons.IH[of mems ps] Cons.prems by fastforce
  qed
qed

lemma merge_quiet:
  assumes "merge_graphs nx ps dflt = Ret m" "\<forall>(s, g) \<in> set ps. quiet_graph g"
  shows "no_verdict m"
proof -
  have "merged_findings ps = []" using assms(2) by (auto simp: merged_findings_def quiet_graph_def)
  moreover have "x_origin e = Some origin.Memory" if "e \<in> set (merged_edges ps)" for e
    using that assms(2) by (fastforce simp: merged_edges_def quiet_graph_def tag_edge_def redge.defs)
  ultimately show ?thesis using assms(1)
    by (auto simp: merge_graphs_def merged_verdict_def no_verdict_def Let_def outcome_simps active_signal_def str_or_def)
qed

lemma quiet_round:
  assumes "digraph_laws (lb_nx lb)" "corr_bounded (lb_np lb)" "settings_ok st" "mems_ok st (s_mem s)" "served_ok (s_graph s)"
    and "obind feed (\<lambda>(w, evs). build_inputs (lb_iso lb) (wanted st) (sv_step st) w evs) = Ret (vecs, breach)"
    and "quiet st lb vecs (s_mem s)"
  shows "\<exists>m inc. s_graph (service_round st lb feed ts now s) = Graph m inc \<and> no_verdict m \<and>
    (\<forall>sig. rel_option (passed_over st lb vecs ts sig) (map_of (s_mem s) sig) (map_of (s_mem (service_round st lb feed ts now s)) sig))"
proof -
  have sized: "inputs_sized vecs" using assms(6) build_inputs_sized by (auto simp: obind_eq_Ret)
  have "\<forall>sig \<in> set (sv_signals st). \<exists>m. map_of (s_mem s) sig = Some m \<and> quiet_signal st lb vecs sig m"
    using assms(4,7) mems_ok_get unfolding quiet_def by metis
  from quiet_passes[OF assms(1) sized this, of "[]" breach ts now] assms(3) obtain mems ps where
    p: "signal_passes st lb vecs breach ts now (sv_signals st) (s_mem s) [] = (mems, Ret ps)" "\<forall>(s, g) \<in> set ps. quiet_graph g"
      "\<forall>sig. rel_option (passed_over st lb vecs ts sig) (map_of (s_mem s) sig) (map_of mems sig)"
    by (auto simp: settings_ok_def)
  have "signals_stated ps"
    using signal_passes_return[OF assms(1-3) sized subset_refl assms(4), of "[]" breach ts now] p(1)
    by (auto simp: signals_stated_def signals_sound_def)
  then obtain m inc where pub: "published st lb vecs ps = Ret (m, inc)" using published_returns[OF assms(1,3)] by blast
  then have g: "service_round st lb feed ts now s = \<lparr>s_mem = mems, s_graph = Graph m inc\<rparr>"
    by (simp add: service_round_def assms(6) p(1))
  have "no_verdict m"
    using pub merge_quiet[OF _ p(2)] by (auto simp: published_def outcome_simps empty_merged_def no_verdict_def split: if_splits)
  with g p(3) show ?thesis by simp
qed

lemma narrative_without_verdict:
  assumes "no_verdict m"
  shows "\<exists>n. narrative_reply llm (Some (Graph m inc)) cache = (Reply n, cache) \<and> na_source n \<in> {FromSteady, FromForecast}"
  using assms by (auto simp: no_verdict_def narrative_reply_def graph_reply_def narrate_def view_of_def split: list.split)

section \<open>Cold start\<close>

text \<open>Every baseline row of a memory rests on at most \<open>n\<close> observations.\<close>

definition learned_at_most :: "nat \<Rightarrow> memories \<Rightarrow> bool" where
  "learned_at_most n mems \<longleftrightarrow>
     (\<forall>sig m wl row. map_of mems sig = Some m \<longrightarrow> map_of (mm_baselines m) (wl, sig) = Some row \<longrightarrow> b_n row \<le> n)"

lemma update_baselines_adds:
  assumes "map_of (update_baselines np cfg vectors ts t) (wl, c_signal cfg) = Some row"
    and "\<And>r. map_of t (wl, c_signal cfg) = Some r \<Longrightarrow> b_n r \<le> n"
  shows "b_n row \<le> n + evidence_of wl vectors"
  using assms(1) unfolding update_baselines_def
proof (induction vectors arbitrary: row rule: rev_induct)
  case Nil
  then show ?case using assms(2) by simp
next
  case (snoc pv obs)
  obtain p vec where pv: "pv = (p, vec)" by (cases pv)
  show ?case
  proof (cases "stable_workload p = wl")
    case False
    then have "b_n row \<le> n + evidence_of wl obs"
      using snoc update_baseline_other[of "(wl, c_signal cfg)" p cfg] by (simp add: pv)
    with False show ?thesis by (simp add: evidence_of_def pv)
  next
    case True
    have one: "evidence_of wl (obs @ [pv]) = evidence_of wl obs + 1" using True by (simp add: evidence_of_def pv)
    have old: "b_n r \<le> n + evidence_of wl obs" if "map_of (fold (update_baseline np cfg ts) obs t) (wl, c_signal cfg) = Some r" for r
      using snoc.IH that by blast
    have "map_of (update_baseline np cfg ts (p, vec) (fold (update_baseline np cfg ts) obs t)) (wl, c_signal cfg) = Some row"
      using snoc.prems by (simp add: pv)
    then show ?thesis using old unfolding one
      by (auto simp: update_baseline_def Let_def True upserted.put_same split: if_splits option.splits)
  qed
qed

lemma config_for_signal [simp]: "c_signal (config_for st sig) = sig" "c_base_min_n (config_for st sig) = c_base_min_n (sv_edge st)"
  by (simp_all add: config_for_def Let_def)

text \<open>A young memory gives no threshold, and without one no pod can be a finding.\<close>

lemma young_is_quiet:
  assumes "learned_at_most n mems" "n < c_base_min_n (sv_edge st)"
  shows "quiet st lb vecs mems"
proof -
  have "baseline_threshold (config_for st sig) (mm_baselines m) wl = None" if "map_of mems sig = Some m" for sig m wl
    using that assms by (fastforce simp: baseline_threshold_def learned_at_most_def split: option.split)
  then have "dict_get (thresholds (config_for st sig) m vs) p None = None" if "map_of mems sig = Some m" for sig m vs p
    using that by (induction vs) (auto simp: thresholds_def dict_get_def)
  then show ?thesis by (auto simp: quiet_def quiet_signal_def in_band_def)
qed

text \<open>The rounds of a run, and the number of observations a round may add to one workload.\<close>

type_synonym feed = "(Time_Grid.window \<times> Time_Grid.event option list) outcome \<times> real \<times> real"

definition round_of :: "settings \<Rightarrow> 'g libs \<Rightarrow> feed \<Rightarrow> service \<Rightarrow> service" where
  "round_of st lb f s = (case f of (feed, ts, now) \<Rightarrow> service_round st lb feed ts now s)"

definition inputs_of :: "settings \<Rightarrow> 'g libs \<Rightarrow> feed \<Rightarrow> ((string, vectors) dict \<times> pod list) outcome" where
  "inputs_of st lb f = obind (fst f) (\<lambda>(w, evs). build_inputs (lb_iso lb) (wanted st) (sv_step st) w evs)"

definition replicas_at_most :: "nat \<Rightarrow> settings \<Rightarrow> 'g libs \<Rightarrow> feed \<Rightarrow> bool" where
  "replicas_at_most r st lb f \<longleftrightarrow>
     (case inputs_of st lb f of Ret (vecs, breach) \<Rightarrow> \<forall>sig wl. evidence_of wl (dict_get vecs sig []) \<le> r | _ \<Rightarrow> True)"

lemma round_learns_at_most:
  assumes "learned_at_most n (s_mem s)" "replicas_at_most r st lb f"
    and "\<And>vecs breach. inputs_of st lb f = Ret (vecs, breach) \<Longrightarrow>
      \<forall>sig. rel_option (passed_over st lb vecs (fst (snd f)) sig) (map_of (s_mem s) sig) (map_of (s_mem (round_of st lb f s)) sig)"
  shows "learned_at_most (n + r) (s_mem (round_of st lb f s))"
proof (cases "inputs_of st lb f")
  case (Ret x)
  obtain vecs breach where x: "x = (vecs, breach)" by (cases x)
  show ?thesis unfolding learned_at_most_def
  proof (intro allI impI)
    fix sig m' wl row
    assume m': "map_of (s_mem (round_of st lb f s)) sig = Some m'" and row: "map_of (mm_baselines m') (wl, sig) = Some row"
    with assms(3)[OF Ret[unfolded x]] obtain m where m: "map_of (s_mem s) sig = Some m" "passed_over st lb vecs (fst (snd f)) sig m m'"
      by (metis option_rel_Some2)
    have old: "\<And>r. map_of (mm_baselines m) (wl, sig) = Some r \<Longrightarrow> b_n r \<le> n"
      using assms(1) m(1) by (auto simp: learned_at_most_def)
    have "evidence_of wl (dict_get vecs sig []) \<le> r" using assms(2) by (simp add: replicas_at_most_def Ret x)
    moreover have "b_n row \<le> n + evidence_of wl (dict_get vecs sig [])"
      using m(2) row old update_baselines_adds[of "lb_np lb" "config_for st sig" _ _ "mm_baselines m" wl row n]
      by (fastforce simp: passed_over_def intro: trans_le_add1)
    ultimately show "b_n row \<le> n + r" by simp
  qed
qed (use assms(1) in \<open>auto simp: round_of_def inputs_of_def service_round_def learned_at_most_def split: prod.splits intro: trans_le_add1\<close>)

lemma fresh_learned: "learned_at_most 0 (boot_memories st fam now fresh_memory)"
proof -
  have "mm_baselines m = []" if "map_of (boot_memories st fam now fresh_memory) sig = Some m" for sig m
    using dict_of_memD[OF that[unfolded boot_memories_def]]
    by (auto simp: open_memory_def record_model_version_def migrate_def fresh_memory_def Let_def)
  then show ?thesis by (simp add: learned_at_most_def)
qed

lemma round_reach: "serve_reach st lb s \<Longrightarrow> serve_reach st lb (round_of st lb f s)"
  by (cases f) (simp add: round_of_def serve_reach.round)

text \<open>While the memories are young a round serves no verdict and adds one round's observations.\<close>

lemma young_round:
  assumes "digraph_laws (lb_nx lb)" "corr_bounded (lb_np lb)" "settings_ok st" "serve_reach st lb s"
    and "learned_at_most n (s_mem s)" "n < c_base_min_n (sv_edge st)"
  shows "replicas_at_most r st lb f \<Longrightarrow> learned_at_most (n + r) (s_mem (round_of st lb f s))"
    and "inputs_of st lb f = Ret x \<Longrightarrow> \<exists>m inc. s_graph (round_of st lb f s) = Graph m inc \<and> no_verdict m"
proof -
  obtain feed ts now where f: "f = (feed, ts, now)" by (cases f)
  have ok: "mems_ok st (s_mem s)" "served_ok (s_graph s)" using serve_reach_ok[OF assms(1-4)] by auto
  have q: "\<exists>m inc. s_graph (round_of st lb f s) = Graph m inc \<and> no_verdict m \<and>
      (\<forall>sig. rel_option (passed_over st lb vecs ts sig) (map_of (s_mem s) sig) (map_of (s_mem (round_of st lb f s)) sig))"
    if "inputs_of st lb f = Ret (vecs, breach)" for vecs breach
    using quiet_round[OF assms(1-3) ok _ young_is_quiet[OF assms(5,6)], of feed vecs breach ts now] that
    by (simp add: round_of_def inputs_of_def f)
  show "learned_at_most (n + r) (s_mem (round_of st lb f s))" if "replicas_at_most r st lb f"
    using round_learns_at_most[OF assms(5) that] q by (auto simp: f)
  show "\<exists>m inc. s_graph (round_of st lb f s) = Graph m inc \<and> no_verdict m" if "inputs_of st lb f = Ret x"
    using q[of "fst x" "snd x"] that by auto
qed

lemma young_rounds:
  assumes "digraph_laws (lb_nx lb)" "corr_bounded (lb_np lb)" "settings_ok st"
    and "\<forall>f \<in> set fs. replicas_at_most r st lb f" "serve_reach st lb s" "learned_at_most n (s_mem s)"
    and "n + length fs * r < c_base_min_n (sv_edge st)"
  shows "serve_reach st lb (fold (round_of st lb) fs s) \<and> learned_at_most (n + length fs * r) (s_mem (fold (round_of st lb) fs s))"
  using assms(4-7)
proof (induction fs arbitrary: s n)
  case (Cons f fs)
  have "n < c_base_min_n (sv_edge st)" using Cons.prems(4) by simp
  from young_round(1)[OF assms(1-3) Cons.prems(2,3) this] have "learned_at_most (n + r) (s_mem (round_of st lb f s))"
    using Cons.prems(1) by simp
  with Cons.IH[OF _ round_reach[OF Cons.prems(2)], of "n + r"] Cons.prems(1,4) show ?case by (simp add: algebra_simps)
qed simp

section \<open>Properties\<close>

text \<open>C2. A quiet round serves no verdict. In every reachable state, when each pod of the round is within its
  learned band or has no strong onset, the round serves a graph with no finding, no root, no victim and no case,
  whose edges are all remembered ones; no case library changes; and the narrative is the steady line or a
  forecast, whatever the language model and the cache are.\<close>

theorem quiet_round_serves_no_verdict:
  assumes "digraph_laws (lb_nx lb)" "corr_bounded (lb_np lb)" "settings_ok st" "serve_reach st lb s"
    and "obind feed (\<lambda>(w, evs). build_inputs (lb_iso lb) (wanted st) (sv_step st) w evs) = Ret (vecs, breach)"
    and "quiet st lb vecs (s_mem s)"
  shows "\<exists>m inc. s_graph (service_round st lb feed ts now s) = Graph m inc \<and>
    mg_findings m = [] \<and> mg_ranking m = [] \<and> mg_blast m = [] \<and> mg_case (mg_meta m) = None \<and>
    (\<forall>e \<in> set (mg_edges m). x_origin e = Some origin.Memory) \<and>
    (\<forall>sig. map_option mm_lib (map_of (s_mem (service_round st lb feed ts now s)) sig) = map_option mm_lib (map_of (s_mem s) sig)) \<and>
    (\<forall>llm cache. \<exists>n. narrative_reply llm (Some (Graph m inc)) cache = (Reply n, cache) \<and> na_source n \<in> {FromSteady, FromForecast})"
proof -
  have ok: "mems_ok st (s_mem s)" "served_ok (s_graph s)" using serve_reach_ok[OF assms(1-4)] by auto
  obtain m inc where m: "s_graph (service_round st lb feed ts now s) = Graph m inc" "no_verdict m"
    "\<forall>sig. rel_option (passed_over st lb vecs ts sig) (map_of (s_mem s) sig) (map_of (s_mem (service_round st lb feed ts now s)) sig)"
    using quiet_round[OF assms(1-3) ok assms(5,6), of ts now] by blast
  have "map_option mm_lib (map_of (s_mem (service_round st lb feed ts now s)) sig) = map_option mm_lib (map_of (s_mem s) sig)" for sig
    using spec[OF m(3), of sig] by (cases rule: option.rel_cases) (simp_all add: passed_over_def)
  with m(1,2) narrative_without_verdict[OF m(2), of _ inc] show ?thesis by (simp add: no_verdict_def)
qed

text \<open>C4. A cold start is silent. After a first start on empty databases, as long as the rounds so far cannot have
  shown any workload \<open>base_min_n\<close> times, at most \<open>r\<close> replicas of it in each, the next round serves no verdict,
  however hard the pods are storming.\<close>

theorem cold_start_is_silent:
  assumes "digraph_laws (lb_nx lb)" "corr_bounded (lb_np lb)" "settings_ok st"
    and "boot_graph st lb now0 (boot_memories st fam now0 fresh_memory) = Ret m0"
    and "\<forall>f \<in> set fs. replicas_at_most r st lb f" "length fs * r < c_base_min_n (sv_edge st)"
    and "inputs_of st lb f = Ret x"
  shows "\<exists>m inc. s_graph (round_of st lb f (fold (round_of st lb) fs
      \<lparr>s_mem = boot_memories st fam now0 fresh_memory, s_graph = Graph m0 []\<rparr>)) = Graph m inc \<and> no_verdict m"
proof -
  let ?s = "\<lparr>s_mem = boot_memories st fam now0 fresh_memory, s_graph = Graph m0 []\<rparr>"
  have "serve_reach st lb ?s" by (rule serve_reach.start[OF refl assms(4)])
  moreover have "learned_at_most 0 (s_mem ?s)" using fresh_learned by simp
  ultimately have "serve_reach st lb (fold (round_of st lb) fs ?s)" "learned_at_most (length fs * r) (s_mem (fold (round_of st lb) fs ?s))"
    using young_rounds[OF assms(1-3,5), of ?s 0] assms(6) by auto
  from young_round(2)[OF assms(1-3) this assms(6,7)] show ?thesis .
qed

lemma demo_libs_ok: "digraph_laws (lb_nx demo_libs)" "corr_bounded (lb_np demo_libs)"
  using log_nx_laws quick_num_corr_bounded by (simp_all add: demo_libs_def)

lemma demo_inputs: "\<exists>x. inputs_of default_settings demo_libs (Ret (demo_window, demo_events), ts, now) = Ret x"
proof -
  have "points_of (\<lambda>_. None) samples = Ret []" for samples
    by (induction samples) (auto simp: points_of_def point_of_def epoch_def somes_def outcome_simps)
  then show ?thesis
    by (simp add: inputs_of_def build_inputs_def demo_window_def demo_libs_def add_series_def MIN_COVERAGE_def
        candidate_pods_def demo_events_def somes_def Let_def)
qed

lemma quiet_round_serves_no_verdict_witness:
  "\<exists>s m inc. serve_reach default_settings demo_libs s \<and>
     s_graph (service_round default_settings demo_libs (Ret (demo_window, demo_events)) 1 2 s) = Graph m inc \<and> mg_ranking m = []"
proof -
  let ?s0 = "boot_memories default_settings True 0 fresh_memory"
  obtain m0 where m0: "boot_graph default_settings demo_libs 0 ?s0 = Ret m0"
    using boot_graph_returns[OF demo_libs_ok(1), of default_settings 0 ?s0] by blast
  have r: "serve_reach default_settings demo_libs \<lparr>s_mem = ?s0, s_graph = Graph m0 []\<rparr>"
    by (rule serve_reach.start[OF refl m0])
  obtain vecs breach where i: "obind (Ret (demo_window, demo_events))
      (\<lambda>(w, evs). build_inputs (lb_iso demo_libs) (wanted default_settings) (sv_step default_settings) w evs) = Ret (vecs, breach)"
    using demo_inputs[of 1 2] by (auto simp: inputs_of_def)
  have "quiet default_settings demo_libs vecs (s_mem \<lparr>s_mem = ?s0, s_graph = Graph m0 []\<rparr>)"
    by (rule young_is_quiet[of 0]) (simp_all add: fresh_learned default_settings_def default_config_def)
  from quiet_round_serves_no_verdict[OF demo_libs_ok default_settings_ok r i this, of 1 2] r show ?thesis by blast
qed

lemma cold_start_is_silent_witness:
  "\<exists>m0 m inc. boot_graph default_settings demo_libs 0 (boot_memories default_settings True 0 fresh_memory) = Ret m0 \<and>
     s_graph (round_of default_settings demo_libs (Ret (demo_window, demo_events), 1, 2)
       (fold (round_of default_settings demo_libs) [(Raise OSError, 1, 2)]
         \<lparr>s_mem = boot_memories default_settings True 0 fresh_memory, s_graph = Graph m0 []\<rparr>)) = Graph m inc \<and> no_verdict m"
proof -
  let ?s0 = "boot_memories default_settings True 0 fresh_memory"
  obtain m0 where m0: "boot_graph default_settings demo_libs 0 ?s0 = Ret m0"
    using boot_graph_returns[OF demo_libs_ok(1), of default_settings 0 ?s0] by blast
  obtain x where x: "inputs_of default_settings demo_libs (Ret (demo_window, demo_events), 1, 2) = Ret x" using demo_inputs by blast
  have r: "\<forall>f \<in> set [(Raise OSError, 1, 2)]. replicas_at_most 11 default_settings demo_libs f"
    by (simp add: replicas_at_most_def inputs_of_def)
  have n: "length [(Raise OSError, 1, 2) :: feed] * 11 < c_base_min_n (sv_edge default_settings)"
    by (simp add: default_settings_def default_config_def)
  from cold_start_is_silent[OF demo_libs_ok default_settings_ok m0 r n x] m0 show ?thesis by blast
qed


definition short_storm :: vec where
  "short_storm = replicate 27 1 @ replicate 3 9"


end
