(* ===== verification/Machine.thy ===== *)
theory Machine
  imports Main "HOL-Library.Sublist"
begin

text \<open>
  State machines as an interface: initial states, a step relation and an invariant that the steps keep.
  The service, the ingester and the cooling monitor are such machines. An evolving machine relates each
  state to all its successors, and a machine with a log is one whose log only grows.
\<close>

locale machine =
  fixes init :: "'s \<Rightarrow> bool"
    and step :: "'s \<Rightarrow> 's \<Rightarrow> bool"
    and ok :: "'s \<Rightarrow> bool"
  assumes init_ok: "init s \<Longrightarrow> ok s"
    and step_ok: "step s s' \<Longrightarrow> ok s \<Longrightarrow> ok s'"
begin

lemma run_ok: "step\<^sup>*\<^sup>* s s' \<Longrightarrow> ok s \<Longrightarrow> ok s'"
  by (induction rule: rtranclp_induct) (auto intro: step_ok)

lemma reachable_ok: "init s \<Longrightarrow> step\<^sup>*\<^sup>* s s' \<Longrightarrow> ok s'"
  using run_ok init_ok by blast

end

locale evolving = machine +
  fixes evolves :: "'s \<Rightarrow> 's \<Rightarrow> bool"
  assumes evolves_refl: "evolves s s"
    and evolves_trans: "evolves s s' \<Longrightarrow> evolves s' s'' \<Longrightarrow> evolves s s''"
    and step_evolves: "step s s' \<Longrightarrow> ok s \<Longrightarrow> evolves s s'"
begin

lemma run_evolves: "step\<^sup>*\<^sup>* s s' \<Longrightarrow> ok s \<Longrightarrow> evolves s s'"
proof (induction rule: rtranclp_induct)
  case base
  show ?case by (rule evolves_refl)
next
  case (step s' s'')
  then have "evolves s' s''" using step_evolves run_ok by blast
  with step show ?case using evolves_trans by blast
qed

end

locale logging = machine +
  fixes log :: "'s \<Rightarrow> 'a list"
  assumes step_logs: "step s s' \<Longrightarrow> ok s \<Longrightarrow> prefix (log s) (log s')"

sublocale logging \<subseteq> logged: evolving init step ok "\<lambda>s s'. prefix (log s) (log s')"
  by unfold_locales (auto intro: step_logs prefix_order.trans)

end
