(* ===== verification/History.thy ===== *)
theory History
  imports Service Machine
begin

text \<open>
  What the service never forgets. Rounds and restarts are the steps of a machine whose states evolve:
  each signal's memory keeps its cases, observations, snapshots, recorded versions and mistakes in the
  order in which they were written, and only adds to them. Edges fade and baselines move, the archive does
  not. The theory adds no code of its own.
\<close>

section \<open>One memory\<close>

definition grew :: "memory \<Rightarrow> memory \<Rightarrow> bool" where
  "grew m m' \<longleftrightarrow> mm_path m' = mm_path m \<and> prefix (keys (fst (mm_lib m))) (keys (fst (mm_lib m'))) \<and>
     prefix (snd (mm_lib m)) (snd (mm_lib m')) \<and> prefix (mm_snapshots m) (mm_snapshots m') \<and>
     prefix (keys (mm_versions m)) (keys (mm_versions m')) \<and> prefix (mm_mistakes m) (mm_mistakes m')"

lemma grew_refl [simp, intro]: "grew m m"
  by (simp add: grew_def)

lemma grew_trans: "grew m m' \<Longrightarrow> grew m' m'' \<Longrightarrow> grew m m''"
  by (auto simp: grew_def intro: prefix_order.trans)

lemma put_keys: "prefix (keys t) (keys (row_put t k r))"
  by (simp add: keys_row_put)

lemma insert_keys: "prefix (keys t) (keys (row_insert_ignore t k r))"
  by (simp add: row_insert_ignore_def)

lemma promote_grows:
  assumes "promote_case digest cfg g ts lib = (v, lib')"
  shows "prefix (keys (fst lib)) (keys (fst lib')) \<and> prefix (snd lib) (snd lib')"
  using assms
  by (auto simp: promote_case_def Let_def put_keys insert_keys split: option.splits prod.splits if_splits)

lemma observe_memory_grows: "observe_memory np digest cfg g vectors w ts m = (v, m') \<Longrightarrow> grew m m'"
  using promote_grows[of digest cfg g ts "mm_lib m"]
  by (cases "promote_case digest cfg g ts (mm_lib m)") (auto simp: observe_memory_def Let_def grew_def)

lemma open_memory_grows: "grew m (open_memory cfg fam now m)"
  by (simp add: open_memory_def record_model_version_def migrate_def grew_def insert_keys comp_def case_prod_beta)

lemma record_mistake_grows: "grew m (record_mistake ts predicted correction incident nt m)"
  by (simp add: record_mistake_def grew_def)

section \<open>The service\<close>

lemma signal_pass_grows: "signal_pass st lb vecs breach ts now sig m = (m', out) \<Longrightarrow> grew m m'"
  by (auto simp: signal_pass_def Let_def dest: observe_memory_grows split: outcome.splits prod.splits)

text \<open>Every memory that is there stays, grown.\<close>

definition kept :: "memories \<Rightarrow> memories \<Rightarrow> bool" where
  "kept ms ms' \<longleftrightarrow> (\<forall>sig m. map_of ms sig = Some m \<longrightarrow> (\<exists>m'. map_of ms' sig = Some m' \<and> grew m m'))"

lemma kept_refl [simp, intro]: "kept ms ms"
  by (auto simp: kept_def)

lemma kept_trans: "kept ms ms' \<Longrightarrow> kept ms' ms'' \<Longrightarrow> kept ms ms''"
  unfolding kept_def by (meson grew_trans)

lemma kept_update: "map_of ms sig = Some m \<Longrightarrow> grew m m' \<Longrightarrow> kept ms (AList.update sig m' ms)"
  by (auto simp: kept_def update_conv')

lemma signal_passes_grow: "signal_passes st lb vecs breach ts now sigs ms ps = (ms', out) \<Longrightarrow> kept ms ms'"
proof (induction sigs arbitrary: ms ps)
  case (Cons sig sigs)
  show ?case
  proof (cases "dict_get vecs sig [] = []")
    case False
    show ?thesis
    proof (cases "map_of ms sig")
      case (Some m)
      obtain m' r where p: "signal_pass st lb vecs breach ts now sig m = (m', r)"
        by (cases "signal_pass st lb vecs breach ts now sig m")
      have k: "kept ms (AList.update sig m' ms)" by (rule kept_update[OF Some signal_pass_grows[OF p]])
      show ?thesis
        using Cons False Some p k kept_trans[OF k] by (cases r) auto
    qed (use Cons.prems False in auto)
  qed (use Cons in auto)
qed auto

lemma service_round_grows: "kept (s_mem s) (s_mem (service_round st lb feed ts now s))"
proof (cases "obind feed (\<lambda>(w, evs). build_inputs (lb_iso lb) (wanted st) (sv_step st) w evs)")
  case (Ret x)
  obtain vecs breach where x: "x = (vecs, breach)" by (cases x)
  obtain mems out where p: "signal_passes st lb vecs breach ts now (sv_signals st) (s_mem s) [] = (mems, out)"
    by (cases "signal_passes st lb vecs breach ts now (sv_signals st) (s_mem s) []")
  then show ?thesis using signal_passes_grow[OF p]
    by (simp add: service_round_def Ret x split: outcome.split prod.split)
qed (simp_all add: service_round_def)

lemma restart_grows:
  assumes "\<And>sig m. map_of mems sig = Some m \<Longrightarrow> sig \<in> set (sv_signals st)"
  shows "kept mems (boot_memories st fam now (disk_of st mems))"
  using assms by (auto simp: kept_def boot_memories_get disk_of_db open_memory_grows)

section \<open>The service as a machine\<close>

inductive serve_start :: "settings \<Rightarrow> 'g libs \<Rightarrow> service \<Rightarrow> bool" for st lb where
  "mems = boot_memories st fam now fresh_memory \<Longrightarrow> boot_graph st lb now mems = Ret m \<Longrightarrow>
     serve_start st lb \<lparr>s_mem = mems, s_graph = Graph m []\<rparr>"

inductive serve_step :: "settings \<Rightarrow> 'g libs \<Rightarrow> service \<Rightarrow> service \<Rightarrow> bool" for st lb s where
  round: "serve_step st lb s (service_round st lb feed ts now s)"
| restart: "mems = boot_memories st fam now (disk_of st (s_mem s)) \<Longrightarrow> boot_graph st lb now mems = Ret m \<Longrightarrow>
     serve_step st lb s \<lparr>s_mem = mems, s_graph = Graph m []\<rparr>"

lemma serve_reach_run: "serve_start st lb s0 \<Longrightarrow> (serve_step st lb)\<^sup>*\<^sup>* s0 s \<Longrightarrow> serve_reach st lb s"
proof (rotate_tac, induction rule: rtranclp_induct)
  case (step s s')
  from step.hyps(2) step.IH[OF step.prems] show ?case by cases (auto intro: serve_reach.round serve_reach.restart)
qed (auto elim: serve_start.cases intro: serve_reach.start)

text \<open>The memories are those of the signals, and nothing else.\<close>

definition own_signals :: "settings \<Rightarrow> service \<Rightarrow> bool" where
  "own_signals st s \<longleftrightarrow> (\<forall>sig m. map_of (s_mem s) sig = Some m \<longrightarrow> sig \<in> set (sv_signals st))"

lemma boot_own: "map_of (boot_memories st fam now disk) sig = Some m \<Longrightarrow> sig \<in> set (sv_signals st)"
  unfolding boot_memories_def by (drule dict_of_memD) auto

lemma signal_passes_own:
  "signal_passes st lb vecs breach ts now sigs ms ps = (ms', out) \<Longrightarrow> map_of ms' sig = Some m \<Longrightarrow>
   (\<exists>x. map_of ms sig = Some x) \<or> sig \<in> set sigs"
proof (induction sigs arbitrary: ms ps)
  case (Cons s sigs)
  show ?case
    using Cons.prems Cons.IH
    by (auto simp: update_conv' split: if_splits option.splits prod.splits outcome.splits) (fastforce split: if_splits)+
qed auto

lemma service_round_own: "own_signals st s \<Longrightarrow> own_signals st (service_round st lb feed ts now s)"
  unfolding own_signals_def
  by (auto simp: service_round_def split: outcome.splits prod.splits dest: signal_passes_own)

interpretation serving: evolving "serve_start st lb" "serve_step st lb" "own_signals st" "\<lambda>s s'. kept (s_mem s) (s_mem s')" for st lb
proof unfold_locales
  show "own_signals st s" if "serve_start st lb s" for s
    using that by cases (simp add: own_signals_def boot_own)
  show "own_signals st s'" if "serve_step st lb s s'" "own_signals st s" for s s'
    using that(1)
  proof cases
    case round
    then show ?thesis using service_round_own[OF that(2)] by simp
  qed (simp add: own_signals_def boot_own)
  show "kept (s_mem s) (s_mem s')" if "serve_step st lb s s'" "own_signals st s" for s s'
    using that(1) by cases (use that(2) in \<open>auto simp: own_signals_def service_round_grows restart_grows\<close>)
qed (auto intro: kept_trans)

section \<open>Properties\<close>

text \<open>C3. The archive is append-only. From any state a service can be in after its first start, whatever it is fed and
  however often it restarts, every signal keeps its database, and the identities of its cases, its
  observations, its snapshots, its recorded model versions and its mistakes stay as they were written, in
  order, with new ones only at the end.\<close>

theorem archive_is_append_only:
  assumes "serve_start st lb s0" "(serve_step st lb)\<^sup>*\<^sup>* s0 s" "(serve_step st lb)\<^sup>*\<^sup>* s s'" "map_of (s_mem s) sig = Some m"
  shows "\<exists>m'. map_of (s_mem s') sig = Some m' \<and> mm_path m' = mm_path m \<and>
    prefix (keys (fst (mm_lib m))) (keys (fst (mm_lib m'))) \<and> prefix (snd (mm_lib m)) (snd (mm_lib m')) \<and>
    prefix (mm_snapshots m) (mm_snapshots m') \<and> prefix (keys (mm_versions m)) (keys (mm_versions m')) \<and>
    prefix (mm_mistakes m) (mm_mistakes m')"
  using serving.run_evolves[OF assms(3) serving.reachable_ok[OF assms(1,2)]] assms(4) by (auto simp: kept_def grew_def)

lemma archive_is_append_only_witness:
  "\<exists>s m m'. map_of (s_mem s) ''psi_io'' = Some m \<and>
     map_of (s_mem (service_round default_settings demo_libs (Ret ([], [])) 1 2 s)) ''psi_io'' = Some m' \<and>
     prefix (snd (mm_lib m)) (snd (mm_lib m'))"
proof -
  let ?ms = "boot_memories default_settings True 0 fresh_memory"
  have sig: "''psi_io'' \<in> set (sv_signals default_settings)" by (simp add: default_settings_def)
  obtain m0 where "boot_graph default_settings demo_libs 0 ?ms = Ret m0"
    using boot_graph_returns[of demo_libs default_settings 0 ?ms] log_nx_laws by (auto simp: demo_libs_def)
  then have start: "serve_start default_settings demo_libs \<lparr>s_mem = ?ms, s_graph = Graph m0 []\<rparr>" by (rule serve_start.intros[OF refl])
  let ?s0 = "\<lparr>s_mem = ?ms, s_graph = Graph m0 []\<rparr>"
  let ?s1 = "service_round default_settings demo_libs (Ret ([], [])) 1 2 ?s0"
  have step: "(serve_step default_settings demo_libs)\<^sup>*\<^sup>* ?s0 ?s1" by (intro r_into_rtranclp serve_step.round)
  obtain m where m: "map_of (s_mem ?s0) ''psi_io'' = Some m" using boot_memories_get[OF sig, of True 0 fresh_memory] by simp
  from archive_is_append_only[OF start rtranclp.rtrancl_refl step m] obtain m' where
    "map_of (s_mem ?s1) ''psi_io'' = Some m'" "prefix (snd (mm_lib m)) (snd (mm_lib m'))" by blast
  with m show ?thesis by (intro exI conjI)
qed

end
