(* ===== verification/Wording.thy ===== *)
theory Wording
  imports Api_View "HOL-Library.Sublist"
begin

text \<open>
  The text of what the API says, \<open>src/api/main.py\<close>: how it prints numbers, quantities, the deterministic
  sentences of the narrative and the details of the right-sizing cards. \<open>Api_View\<close> and \<open>Api_Analysis\<close> decide what
  is said; here it becomes the string. How Python prints a float is a parameter.
\<close>

section \<open>Numbers\<close>

definition digit :: "nat \<Rightarrow> char" where
  "digit n = char_of (48 + n)"

fun show_nat :: "nat \<Rightarrow> string" where
  "show_nat n = (if n < 10 then [digit n] else show_nat (n div 10) @ [digit (n mod 10)])"

declare show_nat.simps [simp del]

definition show_int :: "int \<Rightarrow> string" where
  "show_int i = (if i < 0 then CHR ''-'' # show_nat (nat (- i)) else show_nat (nat i))"

text \<open>Reading a decimal back.\<close>

definition read_nat :: "string \<Rightarrow> nat" where
  "read_nat s = fold (\<lambda>c n. 10 * n + (of_char c - 48)) s 0"

definition read_int :: "string \<Rightarrow> int" where
  "read_int s = (case s of c # cs \<Rightarrow> (if c = CHR ''-'' then - int (read_nat cs) else int (read_nat s)) | [] \<Rightarrow> 0)"

lemma of_char_digit: "n < 10 \<Longrightarrow> of_char (digit n) = 48 + n"
  by (simp add: digit_def)

lemma read_show_nat: "read_nat (show_nat n) = n"
proof (induction n rule: show_nat.induct)
  case (1 n)
  show ?case
  proof (cases "n < 10")
    case True
    then show ?thesis by (subst show_nat.simps) (simp add: read_nat_def of_char_digit)
  next
    case False
    then show ?thesis using 1 by (subst show_nat.simps) (simp add: read_nat_def of_char_digit)
  qed
qed

lemma show_nat_head: "\<exists>d ds. show_nat n = digit d # ds \<and> d < 10"
proof (induction n rule: show_nat.induct)
  case (1 n)
  then show ?case by (subst show_nat.simps) (cases "n < 10", auto)
qed

lemma digit_not_sign: "d < 10 \<Longrightarrow> digit d \<noteq> CHR ''-''"
  using of_char_digit[of d] by auto

lemma read_show_int: "read_int (show_int i) = i"
proof (cases "i < 0")
  case False
  obtain d ds where d: "show_nat (nat i) = digit d # ds" "d < 10" using show_nat_head by blast
  then have "read_int (show_nat (nat i)) = int (read_nat (show_nat (nat i)))" by (simp add: read_int_def digit_not_sign)
  with False show ?thesis by (simp add: show_int_def read_show_nat)
qed (simp add: show_int_def read_int_def read_show_nat)

section \<open>Quantities and cards\<close>

definition show_quantity :: "(real \<Rightarrow> string) \<Rightarrow> quantity \<Rightarrow> string" where
  "show_quantity show_float q =
     (case q of Milli m \<Rightarrow> show_int m @ ''m'' | Cores c \<Rightarrow> show_float c @ '' CPU'' | Bytes n u \<Rightarrow> show_int n @ '' '' @ u)"

definition card_text :: "(real \<Rightarrow> string) \<Rightarrow> card \<Rightarrow> string" where
  "card_text show_float c =
     (let q = List.map (show_quantity show_float) (cd_detail c)
      in case cd_verb c of
           Reclaim \<Rightarrow> ''requests '' @ q ! 0 @ '', p95 '' @ q ! 1 @ '' -> reclaim '' @ q ! 2
         | Resize \<Rightarrow> ''p95 '' @ q ! 0 @ '' near limit '' @ q ! 1 @ '' -> resize up (throttle/OOM risk)'')"

text \<open>Every card has the quantities its text asks for.\<close>

lemma card_detail_complete:
  assumes "rightsize rf zf wl req cap p95 r = Some c"
  shows "length (cd_detail c) = (case cd_verb c of Reclaim \<Rightarrow> 3 | Resize \<Rightarrow> 2)"
  using assms by (auto simp: rightsize_def reclaim_card_def Let_def split: option.splits if_splits)

section \<open>Sentences\<close>

fun register_name :: "register \<Rightarrow> string" where
  "register_name Recurrence = ''recurrence''"
| "register_name Variant = ''variant''"
| "register_name Novel = ''novel''"

text \<open>A label that is missing is printed as Python prints \<open>None\<close>.\<close>

definition show_label :: "string option \<Rightarrow> string" where
  "show_label l = (case l of None \<Rightarrow> ''None'' | Some s \<Rightarrow> s)"

definition cause_text :: "workload \<Rightarrow> string option \<Rightarrow> workload \<Rightarrow> ev list \<Rightarrow> nat option \<Rightarrow> register option \<Rightarrow> string" where
  "cause_text cause signal victim evidence eta reg =
     (let ev = (if evidence = [] then ''correlation'' else py_join '', '' (List.map tag_name evidence));
          eta_txt = (case eta of None \<Rightarrow> [] | Some t \<Rightarrow> '', with impact on '' @ victim @ '' expected in ~'' @ show_nat t @ ''s'');
          reg_txt = (case reg of None \<Rightarrow> [] | Some r \<Rightarrow>
                       (if r = Novel then [] else '' (recognised as a '' @ register_name r @ '' of a known case)''))
      in cause @ '' is the likely root cause of '' @ show_label signal @ '' contention: its activity correlates with '' @
         victim @ '' over '' @ ev @ eta_txt @ reg_txt @ ''.'')"

text \<open>The dash of the source, in UTF-8.\<close>

definition DASH :: string where "DASH = [CHR 0xE2, CHR 0x80, CHR 0x94]"

definition oom_text :: "(real \<Rightarrow> string) \<Rightarrow> workload \<Rightarrow> quantity \<Rightarrow> quantity \<Rightarrow> int \<Rightarrow> string" where
  "oom_text show_float p value limit eta =
     ''Early warning: '' @ p @ '' is trending toward its memory limit ('' @ show_quantity show_float value @ '' of '' @
     show_quantity show_float limit @ '') '' @ DASH @ '' projected OOM in ~'' @ show_int eta @ ''s.''"

fun text_of :: "(real \<Rightarrow> string) \<Rightarrow> sentence \<Rightarrow> string" where
  "text_of show_float (SteadyState n) = ''Steady state: no causal contention detected across '' @ show_nat n @ '' workloads.''"
| "text_of show_float (Cause c sig v es eta reg) = cause_text c sig v es eta reg"
| "text_of show_float (OomWarning p value limit eta) = oom_text show_float p value limit eta"
| "text_of show_float (LlmText t) = t"

text \<open>What the console shows: the verdict, and after a blank the forecast.\<close>

definition narrative_text :: "(real \<Rightarrow> string) \<Rightarrow> narrative \<Rightarrow> string" where
  "narrative_text show_float n = py_join '' '' (List.map (text_of show_float) (na_text n))"

section \<open>What the text cites\<close>

lemma sublist_mid: "sublist y (x @ y @ z)"
  by (simp add: sublist_appendI)

lemma cause_text_cites:
  "sublist c (cause_text c sig v es eta reg)" "sublist v (cause_text c sig v es eta reg)"
  "es \<noteq> [] \<Longrightarrow> sublist (py_join '', '' (List.map tag_name es)) (cause_text c sig v es eta reg)"
proof -
  let ?ev = "if es = [] then ''correlation'' else py_join '', '' (List.map tag_name es)"
  obtain rest where t: "cause_text c sig v es eta reg =
      c @ '' is the likely root cause of '' @ show_label sig @ '' contention: its activity correlates with '' @ v @ '' over '' @ ?ev @ rest"
    by (simp add: cause_text_def Let_def)
  show "sublist c (cause_text c sig v es eta reg)" unfolding t using sublist_mid[of c "[]"] by simp
  show "sublist v (cause_text c sig v es eta reg)" unfolding t
    using sublist_mid[of v "c @ '' is the likely root cause of '' @ show_label sig @ '' contention: its activity correlates with ''"] by simp
  show "sublist (py_join '', '' (List.map tag_name es)) (cause_text c sig v es eta reg)" if "es \<noteq> []" unfolding t
    using that sublist_mid[of ?ev "c @ '' is the likely root cause of '' @ show_label sig @ '' contention: its activity correlates with '' @ v @ '' over ''"]
    by simp
qed

end
