(* ===== verification/Scenarios.thy ===== *)
theory Scenarios
  imports Api_View
begin

text \<open>
  Firing and resetting scenarios from the console, \<open>trigger\<close> and \<open>reset_scenario\<close> of \<open>src/api/main.py\<close>. The
  Kubernetes API and the cooling monitor are one parameter: given a request and the state of the
  world it answers and changes the world. Waiting for the old job is bounded by twenty polls.
\<close>

datatype request = DeleteJob | GetJob | GetCronJob | CreateJob | PatchLeak bool | FlushCooling
datatype response = Done | HttpErr nat | OtherErr
datatype failure = Http nat | Other

type_synonym 'w world = "request \<Rightarrow> 'w \<Rightarrow> response \<times> 'w"

definition call :: "'w world \<Rightarrow> request \<Rightarrow> 'w \<Rightarrow> failure option \<times> 'w" where
  "call c r w =
     (case c r w of (Done, w') \<Rightarrow> (None, w') | (HttpErr n, w') \<Rightarrow> (Some (Http n), w') | (OtherErr, w') \<Rightarrow> (Some Other, w'))"

text \<open>A missing job is no failure of deleting it.\<close>

definition delete_job :: "'w world \<Rightarrow> 'w \<Rightarrow> failure option \<times> 'w" where
  "delete_job c w = (case call c DeleteJob w of (Some (Http n), w') \<Rightarrow> (if n \<noteq> 404 then Some (Http n) else None, w') | x \<Rightarrow> x)"

fun wait_gone :: "'w world \<Rightarrow> nat \<Rightarrow> 'w \<Rightarrow> failure option \<times> 'w" where
  "wait_gone c 0 w = (None, w)"
| "wait_gone c (Suc n) w =
     (case call c GetJob w of
        (None, w') \<Rightarrow> wait_gone c n w'
      | (Some (Http k), w') \<Rightarrow> (if k = 404 then None else Some (Http k), w')
      | (Some Other, w') \<Rightarrow> (Some Other, w'))"

definition and_then :: "failure option \<times> 'w \<Rightarrow> ('w \<Rightarrow> failure option \<times> 'w) \<Rightarrow> failure option \<times> 'w" where
  "and_then x f = (case x of (None, w) \<Rightarrow> f w | (Some e, w) \<Rightarrow> (Some e, w))"

definition POLLS :: nat where "POLLS = 20"

definition trigger_s2 :: "'w world \<Rightarrow> 'w \<Rightarrow> failure option \<times> 'w" where
  "trigger_s2 c w = and_then (and_then (and_then (delete_job c w) (wait_gone c POLLS)) (call c GetCronJob)) (call c CreateJob)"

definition upper :: "string \<Rightarrow> string" where
  "upper s = List.map (\<lambda>c. if CHR ''a'' \<le> c \<and> c \<le> CHR ''z'' then char_of (of_char c - 32 :: nat) else c) s"

datatype status = Fired | Armed | WasReset | SelfClears

definition trigger :: "'w world \<Rightarrow> string \<Rightarrow> 'w \<Rightarrow> status reply \<times> 'w" where
  "trigger c sid w =
     (let s = upper sid;
          report = (\<lambda>st x. case x of (None, w') \<Rightarrow> (Reply st, w') | (Some (Http n), w') \<Rightarrow> (HttpError n, w')
                           | (Some Other, w') \<Rightarrow> (HttpError 503, w'))
      in if s = ''S1'' then report Armed (call c FlushCooling w)
         else if s = ''S2'' then report Fired (trigger_s2 c w)
         else if s = ''S5'' then report Fired (call c (PatchLeak True) w)
         else (HttpError 501, w))"

text \<open>Here only HTTP errors are caught: any other exception is the framework's internal error.\<close>

definition reset_scenario :: "'w world \<Rightarrow> string \<Rightarrow> 'w \<Rightarrow> status reply \<times> 'w" where
  "reset_scenario c sid w =
     (let s = upper sid;
          report = (\<lambda>st x. case x of (None, w') \<Rightarrow> (Reply st, w') | (Some (Http n), w') \<Rightarrow> (HttpError n, w')
                           | (Some Other, w') \<Rightarrow> (HttpError 500, w'))
      in if s = ''S2'' then report WasReset (delete_job c w)
         else if s = ''S5'' then report WasReset (call c (PatchLeak False) w)
         else if s = ''S1'' then (Reply SelfClears, w)
         else (HttpError 501, w))"

text \<open>The catalogue the console shows: which scenarios the API can fire.\<close>

definition SCENARIOS :: "(string \<times> bool) list" where
  "SCENARIOS = [(''S0'', False), (''S1'', True), (''S2'', True), (''S3'', False), (''S4'', False), (''S5'', True)]"

section \<open>Counting and tracing requests\<close>

text \<open>A world that counts its jobs: only a creation adds one, exactly one when it is acknowledged, none when it
  is refused; a creation whose answer is lost may or may not have happened.\<close>

definition counts_jobs :: "'w world \<Rightarrow> ('w \<Rightarrow> nat) \<Rightarrow> bool" where
  "counts_jobs c jobs \<longleftrightarrow>
     (\<forall>r w. (if r \<noteq> CreateJob then jobs (snd (c r w)) = jobs w
             else case fst (c r w) of
                    Done \<Rightarrow> jobs (snd (c r w)) = jobs w + 1
                  | HttpErr n \<Rightarrow> jobs (snd (c r w)) = jobs w
                  | OtherErr \<Rightarrow> jobs (snd (c r w)) \<in> {jobs w, jobs w + 1}))"

definition traced :: "'w world \<Rightarrow> ('w \<times> request list) world" where
  "traced c r wt = (case c r (fst wt) of (resp, w') \<Rightarrow> (resp, (w', snd wt @ [r])))"

lemma and_then_state: "snd (and_then x f) = (if fst x = None then snd (f (snd x)) else snd x)"
  by (cases x) (auto simp: and_then_def split: option.splits)

lemma and_then_fst: "fst (and_then x f) = (if fst x = None then fst (f (snd x)) else fst x)"
  by (cases x) (auto simp: and_then_def split: option.splits)

lemma call_jobs: "counts_jobs c jobs \<Longrightarrow> r \<noteq> CreateJob \<Longrightarrow> jobs (snd (call c r w)) = jobs w"
  unfolding counts_jobs_def call_def by (cases "c r w"; cases "fst (c r w)") (force dest: spec2[of _ r w])+

text \<open>What a call sequence may report of the jobs it made.\<close>

definition honest :: "nat \<Rightarrow> failure option \<times> nat \<Rightarrow> bool" where
  "honest n x = (case fst x of None \<Rightarrow> snd x = n + 1 | Some (Http k) \<Rightarrow> snd x = n | Some Other \<Rightarrow> snd x \<in> {n, n + 1})"

lemma create_honest: "counts_jobs c jobs \<Longrightarrow> honest (jobs w) (map_prod id jobs (call c CreateJob w))"
  unfolding counts_jobs_def call_def honest_def
  by (drule spec[of _ CreateJob], drule spec[of _ w]) (auto split: prod.splits response.splits)

lemma unchanged_honest: "fst x \<noteq> None \<Longrightarrow> jobs (snd x) = n \<Longrightarrow> honest n (map_prod id jobs x)"
  by (cases x) (auto simp: honest_def split: failure.splits)

lemma delete_job_jobs: "counts_jobs c jobs \<Longrightarrow> jobs (snd (delete_job c w)) = jobs w"
  using call_jobs[of c jobs DeleteJob w] by (auto simp: delete_job_def split: prod.splits option.splits failure.splits)

lemma wait_gone_jobs: "counts_jobs c jobs \<Longrightarrow> jobs (snd (wait_gone c n w)) = jobs w"
proof (induction n arbitrary: w)
  case (Suc n)
  then show ?case using call_jobs[of c jobs GetJob w] by (auto split: prod.splits option.splits failure.splits)
qed simp

lemma trigger_s2_honest:
  assumes "counts_jobs c jobs"
  shows "honest (jobs w) (map_prod id jobs (trigger_s2 c w))"
proof -
  define x where "x = and_then (and_then (delete_job c w) (wait_gone c POLLS)) (call c GetCronJob)"
  have same: "jobs (snd x) = jobs w"
    by (simp add: x_def and_then_state call_jobs[OF assms] delete_job_jobs[OF assms] wait_gone_jobs[OF assms])
  show ?thesis
  proof (cases "fst x")
    case None
    then have "trigger_s2 c w = call c CreateJob (snd x)"
      unfolding trigger_s2_def x_def[symmetric] by (cases x) (simp add: and_then_def)
    with create_honest[OF assms, of "snd x"] same show ?thesis by simp
  next
    case (Some e)
    then have "trigger_s2 c w = x"
      unfolding trigger_s2_def x_def[symmetric] by (cases x) (simp add: and_then_def)
    with Some same show ?thesis by (simp add: unchanged_honest)
  qed
qed

lemma call_trace: "snd (snd (call (traced c) r wt)) = snd wt @ [r]"
  by (auto simp: call_def traced_def split: prod.splits response.splits)

lemma wait_gone_trace: "\<exists>k \<le> n. snd (snd (wait_gone (traced c) n wt)) = snd wt @ replicate k GetJob"
proof (induction n arbitrary: wt)
  case (Suc n)
  obtain f wt1 where call: "call (traced c) GetJob wt = (f, wt1)" by (cases "call (traced c) GetJob wt")
  then have tr: "snd wt1 = snd wt @ [GetJob]" using call_trace[of c GetJob wt] by simp
  have one: "\<exists>k \<le> Suc n. snd wt1 = snd wt @ replicate k GetJob" by (rule exI[of _ 1]) (simp add: tr)
  show ?case
  proof (cases f)
    case None
    obtain k where "k \<le> n" "snd (snd (wait_gone (traced c) n wt1)) = snd wt1 @ replicate k GetJob" using Suc.IH by blast
    then show ?thesis using call None tr by (intro exI[of _ "Suc k"]) simp
  next
    case (Some e)
    with call one show ?thesis by (cases e) auto
  qed
qed simp

lemma delete_job_trace: "snd (snd (delete_job (traced c) wt)) = snd wt @ [DeleteJob]"
  using call_trace[of c DeleteJob wt] by (auto simp: delete_job_def split: prod.splits option.splits failure.splits)

lemma trigger_s2_trace:
  "\<exists>k \<le> POLLS. \<exists>rest \<in> {[], [GetCronJob], [GetCronJob, CreateJob]}.
     snd (snd (trigger_s2 (traced c) wt)) = snd wt @ DeleteJob # replicate k GetJob @ rest"
proof -
  define d where "d = delete_job (traced c) wt"
  have d: "snd (snd d) = snd wt @ [DeleteJob]" by (simp add: d_def delete_job_trace)
  obtain k where k: "k \<le> POLLS" "snd (snd (and_then d (wait_gone (traced c) POLLS))) = snd wt @ DeleteJob # replicate k GetJob"
  proof (cases "fst d")
    case None
    obtain k where "k \<le> POLLS" "snd (snd (wait_gone (traced c) POLLS (snd d))) = snd (snd d) @ replicate k GetJob"
      using wait_gone_trace by blast
    then show ?thesis using None d by (intro that[of k]) (simp_all add: and_then_state)
  next
    case (Some e)
    then show ?thesis using d by (intro that[of 0]) (simp_all add: and_then_state)
  qed
  define x where "x = and_then d (wait_gone (traced c) POLLS)"
  have "snd (snd (trigger_s2 (traced c) wt)) = snd (snd x) @
      (if fst x \<noteq> None then [] else if fst (call (traced c) GetCronJob (snd x)) \<noteq> None then [GetCronJob] else [GetCronJob, CreateJob])"
    unfolding trigger_s2_def d_def[symmetric] x_def[symmetric]
    by (simp add: and_then_state and_then_fst call_trace)
  then show ?thesis using k unfolding x_def[symmetric] by (intro exI[of _ k] conjI) auto
qed

lemma trigger_state: "upper sid = ''S2'' \<Longrightarrow> snd (trigger c sid w) = snd (trigger_s2 c w)"
  by (cases "trigger_s2 c w") (auto simp: trigger_def split: option.splits failure.splits)

section \<open>Properties\<close>

text \<open>A lost connection is answered with 503 when firing and escapes as an internal error when resetting.\<close>

lemma reset_failure_escapes:
  "fst (c (PatchLeak True) w) = OtherErr \<Longrightarrow> fst (c (PatchLeak False) w) = OtherErr \<Longrightarrow>
     fst (trigger c ''S5'' w) = HttpError 503 \<and> fst (reset_scenario c ''S5'' w) = HttpError 500"
  by (cases "c (PatchLeak True) w"; cases "c (PatchLeak False) w")
    (simp add: trigger_def reset_scenario_def upper_def call_def)

text \<open>The catalogue tells the truth: what it does not list as triggerable is refused and touches nothing, and
  on a cluster that accepts every request exactly the triggerable scenarios are accepted.\<close>

lemma catalogue_refusals: "list_all (\<lambda>(sid, listed). listed \<or> trigger c sid w = (HttpError 501, w)) SCENARIOS"
  by (simp add: SCENARIOS_def trigger_def upper_def)

lemma catalogue_acceptances:
  "list_all (\<lambda>(sid, listed). listed \<longleftrightarrow> fst (trigger (\<lambda>r w. (Done, w)) sid ()) \<noteq> HttpError 501) SCENARIOS"
  by code_simp


text \<open>A cluster with one old job, which takes a few polls to go; the state is (is the job there, polls left, jobs made).\<close>

definition demo_cluster :: "(bool \<times> nat \<times> nat) world" where
  "demo_cluster r w =
     (case w of (there, left, made) \<Rightarrow>
        (case r of
           DeleteJob \<Rightarrow> (if there then Done else HttpErr 404, w)
         | GetJob \<Rightarrow> (if left = 0 then (HttpErr 404, (False, 0, made)) else (Done, (there, left - 1, made)))
         | CreateJob \<Rightarrow> (if there then (HttpErr 409, w) else (Done, (True, left, made + 1)))
         | _ \<Rightarrow> (Done, w)))"

lemma demo_counts: "counts_jobs demo_cluster (\<lambda>w. snd (snd w))"
  unfolding counts_jobs_def demo_cluster_def by (auto split: request.splits prod.splits)


end
