(* ===== verification/Workloads.thy ===== *)
theory Workloads
  imports Py_Base "HOL-Library.Sublist" Machine
begin

text \<open>
  The demo workloads the engine watches, as far as they keep state: the telemetry ingester
  (\<open>src/workloads/telemetry-ingest/main.py\<close>), whose receiver and database writer are two threads around a
  bounded queue; the frame cache of \<open>src/workloads/vision-qc/main.py\<close>; and the loop of
  \<open>src/workloads/cooling-monitor/main.py\<close> with its flush flag. The broker, the database, the clock and
  \<open>fio\<close> are the choices of the steps.
\<close>

section \<open>The telemetry ingester\<close>

type_synonym reading = "real \<times> string \<times> string"

definition QUEUE_MAX :: nat where "QUEUE_MAX = 50000"
definition BATCH_MAX :: nat where "BATCH_MAX = 500"

text \<open>Where the writer thread stands: reconnecting, blocked on the queue, filling a batch, or writing it.\<close>

datatype wstate = Disconnected | Waiting | Filling | Writing

text \<open>The last three fields are history: what was received, what was dropped at the full queue, and what was
  in hand when a write failed.\<close>

record ingest =
  in_queue :: "reading list"
  in_writer :: wstate
  in_batch :: "reading list"
  in_table :: "reading list"
  in_inserted :: nat
  in_depth :: nat
  in_received :: "reading list"
  in_dropped :: nat
  in_lost :: nat

definition ingest_init :: ingest where
  "ingest_init = \<lparr>in_queue = [], in_writer = Disconnected, in_batch = [], in_table = [], in_inserted = 0, in_depth = 0,
     in_received = [], in_dropped = 0, in_lost = 0\<rparr>"

definition on_msg :: "reading \<Rightarrow> ingest \<Rightarrow> ingest" where
  "on_msg x s =
     (let s = s\<lparr>in_received := in_received s @ [x]\<rparr>
      in if length (in_queue s) < QUEUE_MAX then s\<lparr>in_queue := in_queue s @ [x]\<rparr> else s\<lparr>in_dropped := in_dropped s + 1\<rparr>)"

definition connect :: "ingest \<Rightarrow> ingest option" where
  "connect s = (if in_writer s = Disconnected then Some (s\<lparr>in_writer := Waiting\<rparr>) else None)"

text \<open>\<open>Q.get()\<close> blocks while the queue is empty.\<close>

definition take_first :: "ingest \<Rightarrow> ingest option" where
  "take_first s =
     (case (in_writer s, in_queue s) of
        (Waiting, x # q) \<Rightarrow> Some (s\<lparr>in_writer := Filling, in_batch := [x], in_queue := q\<rparr>)
      | _ \<Rightarrow> None)"

text \<open>One turn of the filling loop; \<open>late\<close> says that its second has passed.\<close>

definition fill :: "bool \<Rightarrow> ingest \<Rightarrow> ingest option" where
  "fill late s =
     (if in_writer s \<noteq> Filling then None
      else if length (in_batch s) < BATCH_MAX \<and> \<not> late then
        (case in_queue s of
           [] \<Rightarrow> Some (s\<lparr>in_writer := Writing\<rparr>)
         | x # q \<Rightarrow> Some (s\<lparr>in_batch := in_batch s @ [x], in_queue := q\<rparr>))
      else Some (s\<lparr>in_writer := Writing\<rparr>))"

definition write_done :: "ingest \<Rightarrow> ingest option" where
  "write_done s =
     (if in_writer s \<noteq> Writing then None
      else Some (s\<lparr>in_writer := Waiting, in_table := in_table s @ in_batch s, in_batch := [],
                  in_inserted := in_inserted s + length (in_batch s), in_depth := length (in_queue s)\<rparr>))"

text \<open>A failed write abandons the batch in hand. When only the answer to the commit is lost, the rows are in
  the table although the counter misses them.\<close>

definition write_failed :: "bool \<Rightarrow> ingest \<Rightarrow> ingest option" where
  "write_failed stored s =
     (if in_writer s \<noteq> Writing then None
      else if stored then Some (s\<lparr>in_writer := Disconnected, in_table := in_table s @ in_batch s, in_batch := []\<rparr>)
      else Some (s\<lparr>in_writer := Disconnected, in_lost := in_lost s + length (in_batch s), in_batch := []\<rparr>))"

text \<open>The two threads interleave in any order.\<close>

inductive ingest_step :: "ingest \<Rightarrow> ingest \<Rightarrow> bool" where
  receive: "ingest_step s (on_msg x s)"
| connect: "connect s = Some s' \<Longrightarrow> ingest_step s s'"
| first: "take_first s = Some s' \<Longrightarrow> ingest_step s s'"
| fill: "fill late s = Some s' \<Longrightarrow> ingest_step s s'"
| written: "write_done s = Some s' \<Longrightarrow> ingest_step s s'"
| failed: "write_failed stored s = Some s' \<Longrightarrow> ingest_step s s'"

inductive ingest_reach :: "ingest \<Rightarrow> bool" where
  init: "ingest_reach ingest_init"
| step: "ingest_reach s \<Longrightarrow> ingest_step s s' \<Longrightarrow> ingest_reach s'"

inductive_cases ingest_stepE: "ingest_step s s'"

lemmas ingest_defs = on_msg_def connect_def take_first_def fill_def write_done_def write_failed_def Let_def

definition ingest_ok :: "ingest \<Rightarrow> bool" where
  "ingest_ok s \<longleftrightarrow>
     length (in_queue s) \<le> QUEUE_MAX \<and> length (in_batch s) \<le> BATCH_MAX \<and>
     (in_batch s = [] \<longleftrightarrow> in_writer s \<in> {Disconnected, Waiting}) \<and>
     in_inserted s \<le> length (in_table s) \<and>
     subseq (in_table s @ in_batch s @ in_queue s) (in_received s) \<and>
     length (in_received s) =
       length (in_table s) + length (in_batch s) + length (in_queue s) + in_dropped s + in_lost s"

lemma subseq_snoc: "subseq xs ys \<Longrightarrow> subseq xs (ys @ [y])"
  by (metis append_Nil2 list_emb_append_mono list_emb_Nil)

lemma subseq_drop_mid: "subseq (xs @ ys @ zs) ws \<Longrightarrow> subseq (xs @ zs) ws"
  by (rule subseq_order.trans[rotated], assumption) (intro list_emb_append_mono list_emb_append2 subseq_order.order_refl)

lemma subseq_snoc2: "subseq xs ys \<Longrightarrow> subseq (xs @ [y]) (ys @ [y])"
  by (intro list_emb_append_mono) auto

lemma ingest_init_ok: "ingest_ok ingest_init"
  by (simp add: ingest_ok_def ingest_init_def)

lemma on_msg_ok: "ingest_ok s \<Longrightarrow> ingest_ok (on_msg x s)"
  using subseq_snoc2[of "in_table s @ in_batch s @ in_queue s" "in_received s" x]
  by (auto simp: ingest_ok_def on_msg_def Let_def subseq_snoc)

lemma connect_ok: "ingest_ok s \<Longrightarrow> connect s = Some s' \<Longrightarrow> ingest_ok s'"
  by (auto simp: ingest_ok_def connect_def split: if_splits)

lemma take_first_ok: "ingest_ok s \<Longrightarrow> take_first s = Some s' \<Longrightarrow> ingest_ok s'"
  by (auto simp: ingest_ok_def take_first_def BATCH_MAX_def split: wstate.splits list.splits)

lemma fill_ok: "ingest_ok s \<Longrightarrow> fill late s = Some s' \<Longrightarrow> ingest_ok s'"
  by (auto simp: ingest_ok_def fill_def split: if_splits list.splits)

lemma write_done_ok: "ingest_ok s \<Longrightarrow> write_done s = Some s' \<Longrightarrow> ingest_ok s'"
  by (auto simp: ingest_ok_def write_done_def split: if_splits)

lemma write_failed_ok: "ingest_ok s \<Longrightarrow> write_failed stored s = Some s' \<Longrightarrow> ingest_ok s'"
  by (auto simp: ingest_ok_def write_failed_def intro: subseq_drop_mid split: if_splits)

lemma ingest_step_ok: "ingest_step s s' \<Longrightarrow> ingest_ok s \<Longrightarrow> ingest_ok s'"
  by (elim ingest_stepE)
    (auto simp: on_msg_ok dest: connect_ok take_first_ok fill_ok write_done_ok write_failed_ok)

lemma ingest_step_table: "ingest_step s s' \<Longrightarrow> prefix (in_table s) (in_table s')"
  by (elim ingest_stepE)
    (auto simp: ingest_defs split: if_splits list.splits wstate.splits)

lemma ingest_step_received: "ingest_step s s' \<Longrightarrow> prefix (in_received s) (in_received s')"
  by (elim ingest_stepE)
    (auto simp: ingest_defs split: if_splits list.splits wstate.splits)

text \<open>Both ends of the ingester are logs: what was received and what was stored only grow.\<close>

interpretation storing: logging "\<lambda>s. s = ingest_init" ingest_step ingest_ok in_table
  by unfold_locales (auto simp: ingest_init_ok ingest_step_ok ingest_step_table)

interpretation receiving: logging "\<lambda>s. s = ingest_init" ingest_step ingest_ok in_received
  by unfold_locales (auto simp: ingest_step_received)

lemma ingest_reach_run: "ingest_reach s \<Longrightarrow> ingest_step\<^sup>*\<^sup>* ingest_init s"
  by (induction rule: ingest_reach.induct) auto

lemma ingest_reach_ok: "ingest_reach s \<Longrightarrow> ingest_ok s"
  by (rule storing.reachable_ok[OF refl ingest_reach_run])

text \<open>Whatever fails later, what is stored stays stored, in its order.\<close>

lemma stored_stays_stored: "ingest_reach s \<Longrightarrow> ingest_step\<^sup>*\<^sup>* s s' \<Longrightarrow> prefix (in_table s) (in_table s')"
  by (rule storing.logged.run_evolves[OF _ ingest_reach_ok])

text \<open>The depth gauge moves with commits only: while a write hangs or fails it keeps its value, however
  long the queue grows.\<close>

lemma gauge_moves_with_commits:
  "ingest_step s s' \<Longrightarrow> in_depth s' \<noteq> in_depth s \<Longrightarrow> in_writer s = Writing \<and> in_inserted s' = in_inserted s + length (in_batch s)"
  by (elim ingest_stepE)
    (auto simp: ingest_defs split: if_splits list.splits wstate.splits)

text \<open>What a failed write had in hand is gone: neither stored nor queued, and not counted by the gauges.\<close>

lemma failed_batch_is_lost:
  "write_failed False s = Some s' \<Longrightarrow>
     in_table s' = in_table s \<and> in_queue s' = in_queue s \<and> in_batch s' = [] \<and> in_lost s' = in_lost s + length (in_batch s)"
  by (auto simp: write_failed_def split: if_splits)

section \<open>The frame cache\<close>

definition CACHE_BOUND :: nat where "CACHE_BOUND = 64"

definition leak_enabled :: "string option \<Rightarrow> bool" where
  "leak_enabled env = (lower (case env of None \<Rightarrow> ''false'' | Some v \<Rightarrow> v) = ''true'')"

text \<open>A list when leaking, otherwise a \<open>deque\<close> that forgets its oldest frames.\<close>

definition cache_frame :: "bool \<Rightarrow> 'a \<Rightarrow> 'a list \<Rightarrow> 'a list" where
  "cache_frame leak x cache = (if leak then cache @ [x] else py_tail CACHE_BOUND (cache @ [x]))"

record 'a vision =
  vi_cache :: "'a list"
  vi_gauge :: nat
  vi_defects :: "real list"

text \<open>Decoding a frame and its inference score are the numeric library's: a step is given both.\<close>

definition on_frame :: "bool \<Rightarrow> 'a \<times> real \<Rightarrow> 'a vision \<Rightarrow> 'a vision" where
  "on_frame leak f s =
     (let c = cache_frame leak (fst f) (vi_cache s)
      in s\<lparr>vi_cache := c, vi_gauge := length c,
           vi_defects := vi_defects s @ (if snd f > 200 then [snd f] else [])\<rparr>)"

definition vision_init :: "'a vision" where
  "vision_init = \<lparr>vi_cache = [], vi_gauge = 0, vi_defects = []\<rparr>"

lemma cached_frames:
  "fold (cache_frame leak) xs [] = (if leak then xs else py_tail CACHE_BOUND xs)"
proof (induction xs rule: rev_induct)
  case (snoc x xs)
  have "length xs - (length xs - 64 + 63) + (length xs - 64) = length xs - 63" by arith
  with snoc show ?case by (auto simp: cache_frame_def py_tail_def CACHE_BOUND_def)
qed (simp add: py_tail_def)

lemma on_frame_gauge: "vi_gauge (on_frame leak f s) = length (vi_cache (on_frame leak f s))"
  by (simp add: on_frame_def Let_def)

lemma fold_on_frame:
  "vi_cache (fold (on_frame leak) fs s) = fold (cache_frame leak) (List.map fst fs) (vi_cache s)"
  "vi_gauge (fold (on_frame leak) fs s) = (if fs = [] then vi_gauge s else length (vi_cache (fold (on_frame leak) fs s)))"
  "vi_defects (fold (on_frame leak) fs s) = vi_defects s @ filter (\<lambda>x. x > 200) (List.map snd fs)"
proof -
  show "vi_cache (fold (on_frame leak) fs s) = fold (cache_frame leak) (List.map fst fs) (vi_cache s)"
    by (induction fs arbitrary: s) (simp_all add: on_frame_def Let_def)
  show "vi_gauge (fold (on_frame leak) fs s) = (if fs = [] then vi_gauge s else length (vi_cache (fold (on_frame leak) fs s)))"
    by (cases fs rule: rev_cases) (simp_all add: on_frame_gauge)
  show "vi_defects (fold (on_frame leak) fs s) = vi_defects s @ filter (\<lambda>x. x > 200) (List.map snd fs)"
    by (induction fs arbitrary: s) (simp_all add: on_frame_def Let_def)
qed

text \<open>Memory is bounded exactly without the leak: after any frames the gauge is the number of frames held,
  at most 64 of the latest, or all of them when leaking.\<close>

lemma leak_is_the_only_growth:
  "vi_gauge (fold (on_frame leak) fs vision_init) = (if leak then length fs else min (length fs) CACHE_BOUND) \<and>
   suffix (vi_cache (fold (on_frame leak) fs vision_init)) (List.map fst fs)"
proof -
  have "vi_cache (fold (on_frame leak) fs vision_init) = (if leak then List.map fst fs else py_tail CACHE_BOUND (List.map fst fs))"
    by (simp add: fold_on_frame(1) vision_init_def cached_frames)
  then show ?thesis
    by (auto simp: fold_on_frame(2) vision_init_def length_py_tail CACHE_BOUND_def py_tail_def suffix_drop)
qed

section \<open>The batch analytics\<close>

text \<open>The rollup prints the row or, on any failure of the database, that it was skipped.\<close>

datatype 'a rollup_line = Row 'a | Skipped py_error

definition kpi_rollup :: "'a outcome \<Rightarrow> 'a rollup_line outcome" where
  "kpi_rollup query = (case query of Ret r \<Rightarrow> Ret (Row r) | Raise e \<Rightarrow> Ret (Skipped e) | Diverge \<Rightarrow> Diverge)"

text \<open>The burst multiplies until the clock has passed its limit; the \<open>k\<close>-th reading of the clock is \<open>clock k\<close>.\<close>

partial_function (option) burst :: "(nat \<Rightarrow> real) \<Rightarrow> real \<Rightarrow> real \<Rightarrow> nat \<Rightarrow> nat option" where
  "burst clock t0 limit k = (if clock k - t0 < limit then burst clock t0 limit (k + 1) else Some k)"

lemma burst_ends:
  assumes "limit \<le> clock n - t0" "k \<le> n"
  shows "\<exists>m. k \<le> m \<and> m \<le> n \<and> burst clock t0 limit k = Some m \<and> limit \<le> clock m - t0 \<and> (\<forall>i. k \<le> i \<and> i < m \<longrightarrow> clock i - t0 < limit)"
  using assms(2)
proof (induction "n - k" arbitrary: k)
  case 0
  then have "k = n" by simp
  then have "burst clock t0 limit k = Some k" using assms(1) by (subst burst.simps) simp
  with assms(1) \<open>k = n\<close> show ?case by (intro exI[of _ k]) auto
next
  case (Suc d)
  show ?case
  proof (cases "clock k - t0 < limit")
    case True
    have "d = n - (k + 1)" "k + 1 \<le> n" using Suc.hyps(2) by simp_all
    from Suc.hyps(1)[OF this] obtain m where m: "k + 1 \<le> m" "m \<le> n" "burst clock t0 limit (k + 1) = Some m"
      "limit \<le> clock m - t0" "\<forall>i. k + 1 \<le> i \<and> i < m \<longrightarrow> clock i - t0 < limit" by blast
    have "burst clock t0 limit k = Some m" using True m(3) by (subst burst.simps) simp
    moreover have "clock i - t0 < limit" if "k \<le> i" "i < m" for i
      using m(5) True that by (cases "i = k") auto
    ultimately show ?thesis using m by (intro exI[of _ m]) auto
  next
    case False
    then have "burst clock t0 limit k = Some k" by (subst burst.simps) simp
    with False Suc.prems show ?thesis by (intro exI[of _ k]) auto
  qed
qed

section \<open>The cooling monitor\<close>

record cooling =
  co_flag :: bool
  co_last :: real
  co_writes :: nat
  co_fsyncs :: nat
  co_storms :: nat
  co_posts :: nat

definition cooling_init :: cooling where
  "cooling_init = \<lparr>co_flag = False, co_last = 0, co_writes = 0, co_fsyncs = 0, co_storms = 0, co_posts = 0\<rparr>"

definition do_post :: "string \<Rightarrow> cooling \<Rightarrow> nat \<times> cooling" where
  "do_post path s =
     (if rstrip (CHR ''/'') path = ''/flush'' then (202, s\<lparr>co_flag := True, co_posts := co_posts s + 1\<rparr>) else (404, s))"

definition do_get :: "string \<Rightarrow> nat" where
  "do_get path = (if path = ''/healthz'' then 200 else 404)"

definition heartbeat :: "real \<Rightarrow> nat \<Rightarrow> real \<Rightarrow> cooling \<Rightarrow> cooling" where
  "heartbeat period every now s =
     (if now - co_last s \<ge> period then
        (let n = co_writes s + 1 in
         s\<lparr>co_writes := n, co_fsyncs := co_fsyncs s + (if every \<noteq> 0 \<and> n mod every = 0 then 1 else 0), co_last := now\<rparr>)
      else s)"

text \<open>The flag is removed before the storm, so that a trigger during a storm arms the next one.\<close>

definition maybe_storm :: "cooling \<Rightarrow> cooling" where
  "maybe_storm s = (if co_flag s then s\<lparr>co_flag := False, co_storms := co_storms s + 1\<rparr> else s)"

definition cooling_turn :: "real \<Rightarrow> nat \<Rightarrow> real \<Rightarrow> cooling \<Rightarrow> cooling" where
  "cooling_turn period every now s = maybe_storm (heartbeat period every now s)"

inductive cooling_step :: "real \<Rightarrow> nat \<Rightarrow> cooling \<Rightarrow> cooling \<Rightarrow> bool" for period every s where
  post: "cooling_step period every s (snd (do_post path s))"
| turn: "cooling_step period every s (cooling_turn period every now s)"

definition cooling_ok :: "nat \<Rightarrow> cooling \<Rightarrow> bool" where
  "cooling_ok every s \<longleftrightarrow> co_storms s + (if co_flag s then 1 else 0) \<le> co_posts s \<and> co_fsyncs s \<le> co_writes s \<and>
     (every = 0 \<longrightarrow> co_fsyncs s = 0)"

lemma do_post_ok: "cooling_ok every s \<Longrightarrow> cooling_ok every (snd (do_post path s))"
  by (auto simp: cooling_ok_def do_post_def)

lemma cooling_turn_ok: "cooling_ok every s \<Longrightarrow> cooling_ok every (cooling_turn period every now s)"
  by (auto simp: cooling_ok_def cooling_turn_def heartbeat_def maybe_storm_def Let_def)

interpretation monitor: evolving "\<lambda>s. s = cooling_init" "cooling_step period every" "cooling_ok every"
  "\<lambda>s s'. co_storms s \<le> co_storms s' \<and> co_posts s \<le> co_posts s' \<and> co_fsyncs s \<le> co_fsyncs s'" for period every
proof unfold_locales
  show "cooling_ok every s" if "s = cooling_init" for s using that by (simp add: cooling_ok_def cooling_init_def)
  show "cooling_ok every s'" if "cooling_step period every s s'" "cooling_ok every s" for s s'
    using that(1) by cases (simp_all add: do_post_ok cooling_turn_ok that(2))
  show "co_storms s \<le> co_storms s' \<and> co_posts s \<le> co_posts s' \<and> co_fsyncs s \<le> co_fsyncs s'"
    if "cooling_step period every s s'" "cooling_ok every s" for s s'
    using that(1) by cases (auto simp: do_post_def cooling_turn_def heartbeat_def maybe_storm_def Let_def)
qed auto

text \<open>Idle is quiet: no storm without a trigger, and no device flush at all with the default setting.\<close>

lemma idle_is_quiet:
  "(cooling_step period every)\<^sup>*\<^sup>* cooling_init s \<Longrightarrow>
     co_storms s + (if co_flag s then 1 else 0) \<le> co_posts s \<and> co_fsyncs s \<le> co_writes s \<and> (every = 0 \<longrightarrow> co_fsyncs s = 0)"
  using monitor.reachable_ok[OF refl] by (simp add: cooling_ok_def)

section \<open>Properties\<close>


definition sure :: "('a \<Rightarrow> 'a option) \<Rightarrow> 'a \<Rightarrow> 'a" where
  "sure f s = (case f s of None \<Rightarrow> s | Some s' \<Rightarrow> s')"

lemma sure_reach:
  assumes "ingest_reach s" "\<And>s'. f s = Some s' \<Longrightarrow> ingest_step s s'"
  shows "ingest_reach (sure f s)"
  using assms by (auto simp: sure_def intro: ingest_reach.step split: option.splits)

text \<open>Two messages, a batch of both, and a write that fails.\<close>

definition failed_run :: ingest where
  "failed_run = sure (write_failed False) (sure (fill False) (sure (fill False) (sure take_first (sure connect
     (on_msg (2, ''t'', ''b'') (on_msg (1, ''t'', ''a'') ingest_init))))))"

lemma failed_run_reach: "ingest_reach failed_run"
  unfolding failed_run_def
  by (intro sure_reach ingest_reach.init ingest_step.intros ingest_reach.step[OF _ ingest_step.receive])


end
