(* ===== verification/Gateway.thy ===== *)
theory Gateway
  imports Scenarios Workloads
begin

text \<open>
  The edges of the processes, and what joins them. From \<open>src/api/main.py\<close>: the call of the language model and
  the health, events and topology replies. From \<open>src/correlation/service.py\<close>: the lists of the settings and the
  routes of its HTTP handler. The second part composes: the gateway fetches through the routes of the
  service, and the scenario console acts on the workloads of \<open>Workloads\<close>.
\<close>

section \<open>Settings\<close>

text \<open>A comma-separated variable with a default; only the signal lists drop empty parts.\<close>

definition env_list :: "string \<Rightarrow> string option \<Rightarrow> string list" where
  "env_list dflt v = List.map strip (py_split (CHR '','') (case v of None \<Rightarrow> dflt | Some s \<Rightarrow> s))"

definition env_signals :: "string option \<Rightarrow> string list" where
  "env_signals v = filter (\<lambda>s. s \<noteq> []) (env_list ''psi_io,psi_cpu,psi_mem'' v)"

definition env_storage :: "string option \<Rightarrow> string list" where
  "env_storage v = env_list ''cooling-monitor,dcim-bridge,log-archiver,timescaledb'' v"

lemma default_lists:
  "env_signals None = sv_signals default_settings" "env_storage None = sv_storage default_settings"
  by (simp_all add: env_signals_def env_storage_def env_list_def default_settings_def strip_def is_space_def)

section \<open>The language model\<close>

text \<open>A request fails, or answers with or without a response. An unset host is never asked.\<close>

definition ollama :: "string \<Rightarrow> ('p \<Rightarrow> string option option) \<Rightarrow> 'p \<Rightarrow> string option" where
  "ollama host answer prompt =
     (if host = [] then None
      else case answer prompt of
             Some (Some t) \<Rightarrow> (if strip t = [] then None else Some (strip t))
           | _ \<Rightarrow> None)"

lemma ollama_text: "ollama host answer prompt = Some t \<Longrightarrow> host \<noteq> [] \<and> t \<noteq> [] \<and> (\<exists>u. answer prompt = Some (Some u) \<and> t = strip u)"
  by (auto simp: ollama_def split: if_splits option.splits)

lemma unset_host_never_answers: "ollama [] answer prompt = None"
  by (simp add: ollama_def)

text \<open>Without a host the narrative is the template's, whatever the verdict, and nothing is remembered.\<close>

lemma narrative_without_model:
  assumes "narrate (\<lambda>word g. ollama [] answer (prompt word g)) g [] = (Reply n, cache)"
  shows "na_source n \<noteq> FromLlm \<and> cache = []"
  using assms by (auto simp: narrate_def unset_host_never_answers Let_def split: if_splits list.splits outcome.splits)

section \<open>The replies that pass on\<close>

definition UPSTREAMS :: "string list" where "UPSTREAMS = [''aggregator'', ''engine'']"

definition health :: "(string \<Rightarrow> bool) \<Rightarrow> (string \<times> bool) list \<times> bool" where
  "health up = (let services = List.map (\<lambda>n. (n, up n)) UPSTREAMS in (services, list_all snd services))"

definition events_reply :: "event option list option \<Rightarrow> event option list reply" where
  "events_reply fetched = (case fetched of None \<Rightarrow> HttpError 503 | Some evs \<Rightarrow> Reply evs)"

text \<open>The service map and whether its source was available.\<close>

definition caretta_topology :: "link list option \<Rightarrow> topo_edge list \<times> bool" where
  "caretta_topology fetched =
     (case fetched of None \<Rightarrow> ([], False) | Some links \<Rightarrow> (parse_caretta ''factory'' links, True))"

section \<open>The routes of the service\<close>

datatype http = Text nat string | Json served

definition serve_get :: "served \<Rightarrow> string \<Rightarrow> http" where
  "serve_get g path =
     (if path = ''/healthz'' then Text 200 ''ok''
      else if rstrip (CHR ''/'') path \<in> {[], ''/graph''} then Json g
      else Text 404 ''not found'')"

definition http_code :: "http \<Rightarrow> nat" where
  "http_code h = (case h of Text n _ \<Rightarrow> n | Json _ \<Rightarrow> 200)"

text \<open>What the gateway gets of a service that is up: the graph, through the route it asks for; its health probe
  answers whatever the last round did.\<close>

definition fetch_graph :: "served option \<Rightarrow> served option" where
  "fetch_graph engine =
     (case engine of None \<Rightarrow> None
      | Some g \<Rightarrow> (case serve_get g ''/graph'' of Json x \<Rightarrow> Some x | Text _ _ \<Rightarrow> None))"

lemma fetch_graph_is_current [simp]: "fetch_graph engine = engine"
  by (cases engine) (simp_all add: fetch_graph_def serve_get_def rstrip_def)

definition probe_engine :: "served option \<Rightarrow> bool" where
  "probe_engine engine = (case engine of None \<Rightarrow> False | Some g \<Rightarrow> http_code (serve_get g ''/healthz'') < 400)"

lemma probe_is_liveness: "probe_engine engine \<longleftrightarrow> engine \<noteq> None"
  by (cases engine) (simp_all add: probe_engine_def serve_get_def http_code_def)

lemma healthy_iff_all_up:
  "snd (health up) \<longleftrightarrow> up ''aggregator'' \<and> up ''engine''"
  by (simp add: health_def UPSTREAMS_def)

section \<open>The console and the workloads\<close>

text \<open>The cluster as the console sees it: the cooling monitor behind its endpoint, the variable that arms the
  leak, and the rest of the cluster, which answers for jobs as a parameter says.\<close>

record 'w plant =
  pl_cooling :: cooling
  pl_leak_env :: "string option"
  pl_rest :: 'w

definition plant :: "'w world \<Rightarrow> 'w plant world" where
  "plant k r p =
     (case r of
        FlushCooling \<Rightarrow>
          (case do_post ''/flush'' (pl_cooling p) of
             (code, c) \<Rightarrow> (if code < 400 then Done else HttpErr code, p\<lparr>pl_cooling := c\<rparr>))
      | PatchLeak b \<Rightarrow> (Done, p\<lparr>pl_leak_env := Some (if b then ''true'' else ''false'')\<rparr>)
      | _ \<Rightarrow> (case k r (pl_rest p) of (resp, w) \<Rightarrow> (resp, p\<lparr>pl_rest := w\<rparr>)))"

lemma fire_storm:
  "upper sid = ''S1'' \<Longrightarrow> trigger (plant k) sid p =
     (Reply Armed, p\<lparr>pl_cooling := (pl_cooling p)\<lparr>co_flag := True, co_posts := co_posts (pl_cooling p) + 1\<rparr>\<rparr>)"
  by (simp add: trigger_def call_def plant_def do_post_def rstrip_def Let_def)

lemma set_leak:
  "upper sid = ''S5'' \<Longrightarrow> trigger (plant k) sid p = (Reply Fired, p\<lparr>pl_leak_env := Some ''true''\<rparr>)"
  "upper sid = ''S5'' \<Longrightarrow> reset_scenario (plant k) sid p = (Reply WasReset, p\<lparr>pl_leak_env := Some ''false''\<rparr>)"
  by (simp_all add: trigger_def reset_scenario_def call_def plant_def Let_def)

text \<open>Firing a scenario \<open>n\<close> times.\<close>

primrec fire :: "'w world \<Rightarrow> string \<Rightarrow> nat \<Rightarrow> 'w \<Rightarrow> 'w" where
  "fire c sid 0 w = w"
| "fire c sid (Suc n) w = fire c sid n (snd (trigger c sid w))"

lemma fire_storms:
  "upper sid = ''S1'' \<Longrightarrow> pl_cooling (fire (plant k) sid n p) =
     (pl_cooling p)\<lparr>co_flag := co_flag (pl_cooling p) \<or> n > 0, co_posts := co_posts (pl_cooling p) + n\<rparr>"
  by (induction n arbitrary: p) (simp_all add: fire_storm)

lemma turn_storms:
  "co_storms (cooling_turn period every now s) = co_storms s + (if co_flag s then 1 else 0)"
  "\<not> co_flag (cooling_turn period every now s)"
  by (simp_all add: cooling_turn_def maybe_storm_def heartbeat_def Let_def)

section \<open>Properties\<close>

text \<open>C40. The console's storm runs exactly once. However often S1 is fired between two turns of the cooling
  monitor's loop, every firing is answered as armed and the next turn runs exactly one storm; further
  turns run none until S1 is fired again; and resetting S1 changes nothing, since it clears itself.\<close>

theorem armed_storm_runs_once:
  assumes "upper sid = ''S1''" "n > 0"
  shows "fst (trigger (plant k) sid p) = Reply Armed \<and>
    reset_scenario (plant k) sid p = (Reply SelfClears, p) \<and>
    (let c = cooling_turn period every now (pl_cooling (fire (plant k) sid n p))
     in co_storms c = co_storms (pl_cooling p) + 1 \<and>
        (\<forall>ts. co_storms (fold (cooling_turn period every) ts c) = co_storms c))"
proof -
  have still: "co_storms (fold (cooling_turn period every) ts c) = co_storms c" if "\<not> co_flag c" for ts c
    using that by (induction ts arbitrary: c) (simp_all add: turn_storms)
  show ?thesis
    using assms by (simp add: Let_def fire_storm[of sid k p] fire_storms turn_storms still reset_scenario_def)
qed

lemma armed_storm_runs_once_witness:
  "co_storms (cooling_turn 10 0 5 (pl_cooling (fire (plant demo_cluster) ''s1'' 3
     \<lparr>pl_cooling = cooling_init, pl_leak_env = None, pl_rest = (True, 3, 0)\<rparr>))) = 1"
proof -
  have "upper ''s1'' = ''S1''" by code_simp
  from armed_storm_runs_once[OF this, of 3 demo_cluster "\<lparr>pl_cooling = cooling_init, pl_leak_env = None, pl_rest = (True, 3, 0)\<rparr>" 10 0 5]
  show ?thesis by (simp add: Let_def cooling_init_def)
qed

text \<open>The console's leak switches growth on and off: after S5 is fired the frame cache that the restarted
  workload keeps holds every frame it has seen, beyond any limit; after a reset it holds at most the
  bound, and the latest frames, however many come.\<close>

theorem leak_scenario_switches_growth:
  assumes "upper sid = ''S5''"
  shows "(let p' = snd (trigger (plant k) sid p);
             s = fold (on_frame (leak_enabled (pl_leak_env p'))) fs vision_init
          in fst (trigger (plant k) sid p) = Reply Fired \<and> vi_gauge s = length fs \<and> vi_cache s = List.map fst fs) \<and>
    (let p' = snd (reset_scenario (plant k) sid p);
         s = fold (on_frame (leak_enabled (pl_leak_env p'))) fs vision_init
     in fst (reset_scenario (plant k) sid p) = Reply WasReset \<and> vi_gauge s = min (length fs) CACHE_BOUND \<and>
        suffix (vi_cache s) (List.map fst fs))"
proof -
  have on: "leak_enabled (Some ''true'')" and off: "\<not> leak_enabled (Some ''false'')" by code_simp+
  show ?thesis
    using leak_is_the_only_growth[of True fs] leak_is_the_only_growth[of False fs]
    by (simp add: set_leak[OF assms] on off Let_def fold_on_frame(1) vision_init_def cached_frames)
qed

lemma leak_scenario_switches_growth_witness:
  "vi_gauge (fold (on_frame (leak_enabled (pl_leak_env (snd (trigger (plant demo_cluster) ''s5''
     \<lparr>pl_cooling = cooling_init, pl_leak_env = None, pl_rest = (True, 3, 0)\<rparr>)))))
     (List.map (\<lambda>i. (i, 0)) [0..<100]) vision_init) = 100"
proof -
  have "upper ''s5'' = ''S5''" by code_simp
  from leak_scenario_switches_growth[OF this, of demo_cluster "\<lparr>pl_cooling = cooling_init, pl_leak_env = None, pl_rest = (True, 3, 0)\<rparr>"
      "List.map (\<lambda>i. (i, 0)) [0..<100]"]
  show ?thesis by (simp add: Let_def)
qed

end
