(* ===== verification/Soak.thy ===== *)
theory Soak
  imports Api_View "HOL-Library.Sublist"
begin

text \<open>
  The soak recorder, \<open>src/soak/record.py\<close>: what one tick keeps of the view the API serves
  (\<open>cmd_append\<close>), and what the report at the end of a run computes from the samples (\<open>cmd_report\<close>):
  the series, one rollup per scenario, the summary, the notable events, and the escaping of the data
  that is embedded in the page. The sample file is the list of the samples it holds; file access,
  the CSV copy and the configuration snapshot are left out. A field of a sample is empty as initialised,
  null, or a value.
\<close>

datatype 'a cell = Blank | Null | Val 'a

definition cell_of :: "'a option \<Rightarrow> 'a cell" where
  "cell_of v = (case v of None \<Rightarrow> Null | Some x \<Rightarrow> Val x)"

text \<open>\<open>_num\<close>: a field that is no number is \<open>None\<close>.\<close>

definition num_of :: "'a cell \<Rightarrow> 'a option" where
  "num_of c = (case c of Val x \<Rightarrow> Some x | _ \<Rightarrow> None)"

section \<open>One tick\<close>

record tick =
  sa_t :: string
  sa_epoch :: int
  sa_phase :: string
  sa_cycle :: string
  sa_ok :: bool
  sa_root :: string
  sa_score :: "real cell"
  sa_onset :: "real cell"
  sa_edges :: "nat cell"
  sa_findings :: "nat cell"
  sa_incipient :: "nat cell"
  sa_active :: "nat cell"
  sa_pods :: "nat cell"
  sa_victim :: string
  sa_evidence :: string
  sa_oom_pod :: string
  sa_oom_eta :: "real cell"
  sa_text :: string
  sa_source :: string

definition empty_tick :: "string \<Rightarrow> int \<Rightarrow> string \<Rightarrow> string \<Rightarrow> tick" where
  "empty_tick t now ph cyc =
     \<lparr>sa_t = t, sa_epoch = now, sa_phase = ph, sa_cycle = cyc, sa_ok = False, sa_root = [], sa_score = Blank, sa_onset = Blank,
      sa_edges = Blank, sa_findings = Blank, sa_incipient = Blank, sa_active = Blank, sa_pods = Blank, sa_victim = [],
      sa_evidence = [], sa_oom_pod = [], sa_oom_eta = Blank, sa_text = [], sa_source = []\<rparr>"

definition tick_root :: "view \<Rightarrow> tick \<Rightarrow> tick" where
  "tick_root g r =
     (case vw_root g of
        [] \<Rightarrow> r
      | c # _ \<Rightarrow> r\<lparr>sa_root := rc_pod c, sa_score := Val (rc_score c), sa_onset := cell_of (rc_onset c)\<rparr>)"

definition tick_counts :: "view \<Rightarrow> tick \<Rightarrow> tick" where
  "tick_counts g r =
     r\<lparr>sa_edges := Val (length (vw_edges g)), sa_findings := Val (length (vw_findings g)),
       sa_incipient := Val (length (vw_incip g)),
       sa_active := cell_of (map_option mg_active (vw_meta g)), sa_pods := cell_of (map_option mg_pods (vw_meta g))\<rparr>"

text \<open>The strongest edge leaving the recorded root, or of all when none does.\<close>

definition tick_victim :: "view \<Rightarrow> tick \<Rightarrow> tick" where
  "tick_victim g r =
     (let src = filter (\<lambda>e. ve_src e = sa_root r) (vw_edges g);
          cand = (if src = [] then vw_edges g else src)
      in case argmax (\<lambda>x. \<bar>ve_r x\<bar>) cand of
           None \<Rightarrow> r
         | Some e \<Rightarrow> r\<lparr>sa_victim := ve_dst e, sa_evidence := py_join ''|'' (List.map tag_name (ve_evidence e))\<rparr>)"

definition tick_oom :: "view \<Rightarrow> tick \<Rightarrow> tick" where
  "tick_oom g r =
     (case argmin i_eta (vw_incip g) of
        None \<Rightarrow> r | Some f \<Rightarrow> r\<lparr>sa_oom_pod := i_pod f, sa_oom_eta := Val (i_eta f)\<rparr>)"

text \<open>A tick with no readable graph still leaves a sample, which is marked as not ok.\<close>

definition append_tick ::
  "string \<Rightarrow> int \<Rightarrow> string \<Rightarrow> string \<Rightarrow> view option \<Rightarrow> (string \<times> string) option \<Rightarrow> tick list \<Rightarrow> tick list" where
  "append_tick t now ph cyc g narr rows =
     (let r = empty_tick t now ph cyc;
          r = (case g of None \<Rightarrow> r | Some v \<Rightarrow> tick_oom v (tick_victim v (tick_counts v (tick_root v (r\<lparr>sa_ok := True\<rparr>)))));
          r = (case narr of None \<Rightarrow> r | Some (txt, src) \<Rightarrow> r\<lparr>sa_text := txt, sa_source := src\<rparr>)
      in rows @ [r])"

section \<open>The series\<close>

definition EXPECT :: "(string, string option) dict" where
  "EXPECT = [(''S1'', Some ''cooling-monitor''), (''S2'', Some ''log-archiver''), (''S3'', Some ''analytics-batch''), (''S5'', None)]"

definition SCEN_ORDER :: "string list" where "SCEN_ORDER = [''S1'', ''S2'', ''S3'', ''S5'']"

definition rooted :: "tick \<Rightarrow> bool" where "rooted r \<longleftrightarrow> sa_root r \<noteq> []"

definition oom_eta :: "tick \<Rightarrow> real option" where "oom_eta r = num_of (sa_oom_eta r)"

definition expected :: "string \<Rightarrow> string option" where "expected s = dict_get EXPECT s None"

record series_point =
  pt_t :: string
  pt_epoch :: int
  pt_phase :: string
  pt_cycle :: string
  pt_edges :: nat
  pt_findings :: nat
  pt_root :: string
  pt_matched :: "bool option"
  pt_oom :: "real option"

definition series_row :: "tick \<Rightarrow> series_point" where
  "series_row r =
     \<lparr>pt_t = sa_t r, pt_epoch = sa_epoch r, pt_phase = sa_phase r, pt_cycle = sa_cycle r,
      pt_edges = (case num_of (sa_edges r) of None \<Rightarrow> 0 | Some n \<Rightarrow> n),
      pt_findings = (case num_of (sa_findings r) of None \<Rightarrow> 0 | Some n \<Rightarrow> n), pt_root = sa_root r,
      pt_matched = (if rooted r then map_option (\<lambda>x. sa_root r = x) (expected (sa_phase r)) else None), pt_oom = oom_eta r\<rparr>"

section \<open>The rollup of a scenario\<close>

definition root_counts :: "tick list \<Rightarrow> (string, nat) dict" where
  "root_counts rs = fold (\<lambda>r d. AList.update (sa_root r) (dict_get d (sa_root r) 0 + 1) d) rs []"

definition oom_scan :: "tick list \<Rightarrow> string set \<times> real option" where
  "oom_scan obs =
     fold (\<lambda>r (cs, m). case oom_eta r of
             None \<Rightarrow> (cs, m)
           | Some e \<Rightarrow> (insert (sa_cycle r) cs, case m of None \<Rightarrow> Some e | Some x \<Rightarrow> if e < x then Some e else m))
       obs ({}, None)"

text \<open>The time from the first sample of a cycle to its first detection: a root, or for S5 a forecast.\<close>

definition hit :: "string \<Rightarrow> tick \<Rightarrow> bool" where
  "hit s r \<longleftrightarrow> (if s = ''S5'' then oom_eta r \<noteq> None else rooted r)"

definition cycle_ttd :: "string \<Rightarrow> tick list \<Rightarrow> string \<Rightarrow> int option" where
  "cycle_ttd s obs c =
     (let cr = filter (\<lambda>r. sa_cycle r = c) obs
      in case (argmin sa_epoch cr, argmin sa_epoch (filter (hit s) cr)) of
           (Some a, Some b) \<Rightarrow> Some (sa_epoch b - sa_epoch a)
         | _ \<Rightarrow> None)"

definition cycles_of :: "tick list \<Rightarrow> string list" where
  "cycles_of obs = sort (remdups (List.map sa_cycle obs))"

definition ttds :: "string \<Rightarrow> tick list \<Rightarrow> int list" where
  "ttds s obs = sort (List.map_filter (cycle_ttd s obs) (cycles_of obs))"

definition rate :: "nat \<Rightarrow> nat \<Rightarrow> real" where
  "rate k n = (if n = 0 then 0 else py_round 3 (of_nat k / of_nat n))"

record rollup =
  ro_cycles :: nat
  ro_samples :: nat
  ro_detect :: real
  ro_correct :: real
  ro_dominant :: "(string \<times> nat) option"
  ro_expected :: "string option"
  ro_oom :: real
  ro_min_eta :: "real option"
  ro_median :: "int option"

definition rollup_of :: "string \<Rightarrow> tick list \<Rightarrow> rollup" where
  "rollup_of s rows =
     (let obs = filter (\<lambda>r. sa_phase r = s) rows;
          cyc = cycles_of obs;
          with_root = filter rooted obs;
          correct = filter (\<lambda>r. sa_root r = (case expected s of None \<Rightarrow> [CHR 0x00] | Some x \<Rightarrow> x)) obs;
          oom = oom_scan obs;
          ts = ttds s obs
      in \<lparr>ro_cycles = length cyc, ro_samples = length obs,
          ro_detect = rate (length with_root) (length obs), ro_correct = rate (length correct) (length obs),
          ro_dominant = argmax snd (root_counts with_root), ro_expected = expected s,
          ro_oom = rate (card (fst oom)) (length cyc), ro_min_eta = snd oom,
          ro_median = (if ts = [] then None else Some (ts ! (length ts div 2)))\<rparr>)"

section \<open>Summary and events\<close>

record summary =
  su_ended :: "int option"
  su_minutes :: real
  su_samples :: nat
  su_cycles :: nat

text \<open>A zero epoch counts as missing.\<close>

definition summary_of :: "tick list \<Rightarrow> summary" where
  "summary_of rows =
     (let es = filter (\<lambda>e. e \<noteq> 0) (List.map sa_epoch rows);
          t0 = (if es = [] then 0 else Min (set es));
          t1 = (if es = [] then 0 else Max (set es))
      in \<lparr>su_ended = (if t1 = 0 then None else Some t1),
          su_minutes = (if t1 = 0 then 0 else py_round 1 (of_int (t1 - t0) / 60)), su_samples = length rows,
          su_cycles = length (cycles_of (filter (\<lambda>r. sa_phase r \<in> set SCEN_ORDER) rows))\<rparr>)"

datatype mark = RightRoot | WrongRoot | NoRootExpected

datatype notable = Detected string string string string mark | OomForecast string string string string int

definition mark_of :: "tick \<Rightarrow> mark" where
  "mark_of r = (case expected (sa_phase r) of
       None \<Rightarrow> NoRootExpected | Some x \<Rightarrow> if sa_root r = x then RightRoot else WrongRoot)"

definition detect_event :: "tick \<Rightarrow> notable" where
  "detect_event r = Detected (sa_t r) (sa_phase r) (sa_cycle r) (sa_root r) (mark_of r)"

text \<open>\<open>int(e)\<close> truncates towards zero.\<close>

definition oom_event :: "tick \<Rightarrow> notable" where
  "oom_event r = OomForecast (sa_t r) (sa_phase r) (sa_cycle r) (sa_oom_pod r)
     (case oom_eta r of None \<Rightarrow> 0 | Some e \<Rightarrow> if e \<ge> 0 then \<lfloor>e\<rfloor> else \<lceil>e\<rceil>)"

definition detects :: "tick \<Rightarrow> bool" where
  "detects r \<longleftrightarrow> sa_phase r \<in> set (keys EXPECT) \<and> rooted r"

definition key_of :: "tick \<Rightarrow> string \<times> string" where "key_of r = (sa_cycle r, sa_phase r)"

definition oom_key :: "tick \<Rightarrow> string \<times> string" where "oom_key r = (''oom'', sa_cycle r)"

fun event_log :: "tick list \<Rightarrow> (string \<times> string) set \<Rightarrow> notable list" where
  "event_log [] seen = []"
| "event_log (r # rs) seen =
     (let new = detects r \<and> key_of r \<notin> seen;
          seen1 = (if new then insert (key_of r) seen else seen);
          warn = oom_eta r \<noteq> None \<and> oom_key r \<notin> seen1;
          seen2 = (if warn then insert (oom_key r) seen1 else seen1)
      in (if new then [detect_event r] else []) @ (if warn then [oom_event r] else []) @ event_log rs seen2)"

definition report_events :: "tick list \<Rightarrow> notable list" where
  "report_events rows = py_tail 40 (event_log rows {})"

record report =
  re_summary :: summary
  re_per :: "(string, rollup) dict"
  re_series :: "series_point list"
  re_events :: "notable list"

definition report_of :: "tick list \<Rightarrow> report" where
  "report_of rows =
     \<lparr>re_summary = summary_of rows, re_per = List.map (\<lambda>s. (s, rollup_of s rows)) SCEN_ORDER,
      re_series = List.map series_row rows, re_events = report_events rows\<rparr>"

text \<open>\<open>blob.replace("</", "<\/")\<close>: the data is embedded in a script element.\<close>

fun escape_close :: "string \<Rightarrow> string" where
  "escape_close (x # y # s) =
     (if x = CHR ''<'' \<and> y = CHR ''/'' then [CHR ''<'', CHR 0x5C, CHR ''/''] @ escape_close s else x # escape_close (y # s))"
| "escape_close s = s"

section \<open>Lemmas\<close>

lemma length_filter_mono: "(\<And>x. P x \<Longrightarrow> Q x) \<Longrightarrow> length (filter P xs) \<le> length (filter Q xs)"
  by (induction xs) (auto simp: le_SucI)

lemma rate_mono: "j \<le> k \<Longrightarrow> rate j n \<le> rate k n"
  by (auto simp: rate_def intro!: py_round_mono divide_right_mono)

lemma rate_nonneg: "0 \<le> rate k n"
  by (simp add: rate_def py_round_nonneg)

lemma rate_le_1: "k \<le> n \<Longrightarrow> rate k n \<le> 1"
  by (auto simp: rate_def intro!: py_round_le_1 simp: divide_le_eq)

lemma correct_rooted: "sa_root r = (case expected s of None \<Rightarrow> [CHR 0x00] | Some x \<Rightarrow> x) \<Longrightarrow> rooted r"
  by (auto simp: rooted_def expected_def EXPECT_def dict_get_def split: if_splits)

lemma set_cycles_of [simp]: "set (cycles_of obs) = sa_cycle ` set obs"
  and length_cycles_of: "length (cycles_of obs) = card (sa_cycle ` set obs)"
  by (simp_all add: cycles_of_def length_remdups_card_conv)

lemma oom_scan_cycles: "fst (oom_scan obs) \<subseteq> sa_cycle ` set obs"
proof -
  let ?f = "\<lambda>r (cs, m). case oom_eta r of None \<Rightarrow> (cs, m)
       | Some e \<Rightarrow> (insert (sa_cycle r) cs, case m of None \<Rightarrow> Some e | Some x \<Rightarrow> if e < x then Some e else m)"
  have "fst (fold ?f obs (cs, m)) \<subseteq> cs \<union> sa_cycle ` set obs" for cs m
  proof (induction obs arbitrary: cs m)
    case (Cons r rs)
    show ?case
    proof (cases "oom_eta r")
      case None
      then show ?thesis using Cons.IH[of cs m] by auto
    next
      case (Some e)
      then show ?thesis
        using Cons.IH[of "insert (sa_cycle r) cs" "case m of None \<Rightarrow> Some e | Some x \<Rightarrow> if e < x then Some e else m"] by auto
    qed
  qed simp
  from this[of "{}" None] show ?thesis by (simp add: oom_scan_def)
qed

lemma oom_rate_bound: "card (fst (oom_scan obs)) \<le> length (cycles_of obs)"
  unfolding length_cycles_of by (rule card_mono[OF _ oom_scan_cycles]) simp

lemma root_counts_get:
  "dict_get (root_counts rs) x 0 = length (filter (\<lambda>r. sa_root r = x) rs) \<and>
   (x \<in> set (keys (root_counts rs)) \<longleftrightarrow> x \<in> sa_root ` set rs)"
proof -
  let ?f = "\<lambda>r d. AList.update (sa_root r) (dict_get d (sa_root r) 0 + 1) d"
  have "dict_get (fold ?f rs d) x 0 = dict_get d x 0 + length (filter (\<lambda>r. sa_root r = x) rs) \<and>
      (x \<in> set (keys (fold ?f rs d)) \<longleftrightarrow> x \<in> set (keys d) \<union> sa_root ` set rs)" for d
    by (induction rs arbitrary: d) auto
  from this[of "[]"] show ?thesis by (simp add: root_counts_def)
qed

lemma root_counts_distinct: "distinct (keys (root_counts rs))"
proof -
  have "distinct (keys d) \<Longrightarrow>
      distinct (keys (fold (\<lambda>r d. AList.update (sa_root r) (dict_get d (sa_root r) 0 + 1) d) rs d))" for d :: "(string, nat) dict"
    by (induction rs arbitrary: d) (auto simp: distinct_update)
  then show ?thesis by (simp add: root_counts_def)
qed

lemma root_counts_mem: "(x, n) \<in> set (root_counts rs) \<Longrightarrow> n = length (filter (\<lambda>r. sa_root r = x) rs) \<and> x \<in> sa_root ` set rs"
  using root_counts_get[of rs x] map_of_is_SomeI[OF root_counts_distinct, of x n rs]
  by (force simp: dict_get_def)

lemma dominant_max:
  "length (filter (\<lambda>r. sa_root r = y) rs) \<le> (case argmax snd (root_counts rs) of None \<Rightarrow> 0 | Some (_, n) \<Rightarrow> n)"
proof (cases "y \<in> sa_root ` set rs")
  case True
  then obtain n where n: "(y, n) \<in> set (root_counts rs)" using root_counts_get[of rs y] by auto
  with root_counts_mem[OF n] show ?thesis
    using argmax_SomeD[of snd "root_counts rs"] by (cases "argmax snd (root_counts rs)") force+
next
  case False
  then have "filter (\<lambda>r. sa_root r = y) rs = []" by (auto simp: filter_empty_conv)
  then show ?thesis by simp
qed

lemma dominant_counted:
  "pred_option (\<lambda>(x, n). 0 < n \<and> n = length (filter (\<lambda>r. sa_root r = x) rs)) (argmax snd (root_counts rs))"
proof (cases "argmax snd (root_counts rs)")
  case (Some p)
  obtain x n where p: "p = (x, n)" by (cases p)
  with Some argmax_SomeD[of snd "root_counts rs" p] have "(x, n) \<in> set (root_counts rs)" by simp
  from root_counts_mem[OF this] have "n = length (filter (\<lambda>r. sa_root r = x) rs)" "filter (\<lambda>r. sa_root r = x) rs \<noteq> []"
    by (auto simp: filter_empty_conv)
  with Some p show ?thesis by simp
qed (simp add: argmax_def)

lemma cycle_ttd_nonneg: "cycle_ttd s obs c = Some m \<Longrightarrow> 0 \<le> m"
  by (auto simp: cycle_ttd_def Let_def split: option.splits dest!: argmin_SomeD)

lemma ttds_mem: "m \<in> set (ttds s obs) \<Longrightarrow> \<exists>c. cycle_ttd s obs c = Some m"
  by (auto simp: ttds_def map_filter_def)

lemma escape_close_head: "escape_close (y # s) = y # tl (escape_close (y # s))"
  by (cases s) auto

lemma escape_close_safe: "\<not> sublist [CHR ''<'', CHR ''/''] (escape_close s)"
proof (induction s rule: escape_close.induct)
  case (1 x y s)
  show ?case
  proof (cases "x = CHR ''<'' \<and> y = CHR ''/''")
    case True
    with 1 show ?thesis by (simp add: sublist_Cons_right)
  next
    case False
    then have eq: "escape_close (x # y # s) = x # escape_close (y # s)" by auto
    show ?thesis unfolding eq using 1(2) False escape_close_head[of y s]
      by (metis (no_types) Cons_prefix_Cons prefix_Cons sublist_Cons_right list.inject)
  qed
qed (auto simp: sublist_Cons_right)

text \<open>The first sample for each key.\<close>

fun first_by :: "('a \<Rightarrow> 'k) \<Rightarrow> 'a list \<Rightarrow> 'a list" where
  "first_by f [] = []"
| "first_by f (x # xs) = x # filter (\<lambda>y. f y \<noteq> f x) (first_by f xs)"

fun is_detect :: "notable \<Rightarrow> bool" where
  "is_detect (Detected _ _ _ _ _) = True"
| "is_detect (OomForecast _ _ _ _ _) = False"

lemma is_detect_simps [simp]: "is_detect (detect_event r)" "\<not> is_detect (oom_event r)"
  by (simp_all add: detect_event_def oom_event_def)

lemma filter_insert: "filter (\<lambda>x. f x \<notin> insert k A) xs = filter (\<lambda>x. f x \<notin> A) (filter (\<lambda>x. f x \<noteq> k) xs)"
  by (induction xs) auto

lemma filter_skip: "k \<in> A \<Longrightarrow> filter (\<lambda>x. f x \<noteq> k \<and> f x \<notin> A) xs = filter (\<lambda>x. f x \<notin> A) xs"
  by (induction xs) auto

lemma event_log_firsts:
  assumes "\<forall>r \<in> set rows. sa_cycle r \<noteq> ''oom''" "\<forall>k \<in> D. fst k \<noteq> ''oom''" "\<forall>k \<in> W. fst k = ''oom''"
  shows "filter is_detect (event_log rows (D \<union> W)) = List.map detect_event (filter (\<lambda>r. key_of r \<notin> D) (first_by key_of (filter detects rows))) \<and>
    filter (\<lambda>e. \<not> is_detect e) (event_log rows (D \<union> W)) =
      List.map oom_event (filter (\<lambda>r. oom_key r \<notin> W) (first_by oom_key (filter (\<lambda>r. oom_eta r \<noteq> None) rows)))"
  using assms
proof (induction rows arbitrary: D W)
  case (Cons r rs)
  define new where "new \<longleftrightarrow> detects r \<and> key_of r \<notin> D"
  define warn where "warn \<longleftrightarrow> oom_eta r \<noteq> None \<and> oom_key r \<notin> W"
  define D' where "D' = (if new then insert (key_of r) D else D)"
  define W' where "W' = (if warn then insert (oom_key r) W else W)"
  have sep: "key_of r \<notin> W" "oom_key r \<notin> D" "key_of r \<noteq> oom_key r" "oom_key r \<noteq> key_of r"
    using Cons.prems by (auto simp: key_of_def oom_key_def)
  have log: "event_log (r # rs) (D \<union> W) =
      (if new then [detect_event r] else []) @ (if warn then [oom_event r] else []) @ event_log rs (D' \<union> W')"
    using sep by (auto simp: new_def warn_def D'_def W'_def insert_commute)
  have ok: "\<forall>r \<in> set rs. sa_cycle r \<noteq> ''oom''" "\<forall>k \<in> D'. fst k \<noteq> ''oom''" "\<forall>k \<in> W'. fst k = ''oom''"
    using Cons.prems by (auto simp: D'_def W'_def key_of_def oom_key_def)
  note IH = Cons.IH[OF ok]
  have "filter is_detect (event_log (r # rs) (D \<union> W)) =
      List.map detect_event (filter (\<lambda>r. key_of r \<notin> D) (first_by key_of (filter detects (r # rs))))"
    unfolding log using IH by (cases "detects r"; cases "key_of r \<in> D") (auto simp: new_def D'_def filter_insert filter_skip)
  moreover have "filter (\<lambda>e. \<not> is_detect e) (event_log (r # rs) (D \<union> W)) =
      List.map oom_event (filter (\<lambda>r. oom_key r \<notin> W) (first_by oom_key (filter (\<lambda>r. oom_eta r \<noteq> None) (r # rs))))"
    unfolding log using IH by (cases "oom_eta r"; cases "oom_key r \<in> W") (auto simp: warn_def W'_def filter_insert filter_skip)
  ultimately show ?case by blast
qed simp

text \<open>The row a tick appends, for a readable graph.\<close>

definition tick_row :: "string \<Rightarrow> int \<Rightarrow> string \<Rightarrow> string \<Rightarrow> view \<Rightarrow> tick" where
  "tick_row t now ph cyc g = tick_oom g (tick_victim g (tick_counts g (tick_root g (empty_tick t now ph cyc\<lparr>sa_ok := True\<rparr>))))"

lemma append_tick_row:
  "append_tick t now ph cyc (Some g) narr rows =
     rows @ [case narr of None \<Rightarrow> tick_row t now ph cyc g
             | Some (txt, src) \<Rightarrow> (tick_row t now ph cyc g)\<lparr>sa_text := txt, sa_source := src\<rparr>]"
  by (simp add: append_tick_def tick_row_def Let_def split: option.splits prod.splits)

lemma tick_oom_keeps [simp]:
  "sa_root (tick_oom g r) = sa_root r" "sa_findings (tick_oom g r) = sa_findings r"
  "sa_victim (tick_oom g r) = sa_victim r" "sa_evidence (tick_oom g r) = sa_evidence r"
  by (simp_all add: tick_oom_def split: option.split)

lemma tick_victim_keeps [simp]: "sa_root (tick_victim g r) = sa_root r" "sa_findings (tick_victim g r) = sa_findings r"
  by (simp_all add: tick_victim_def Let_def split: option.split)

lemma tick_row_head:
  "sa_root (tick_row t now ph cyc g) = (case vw_root g of [] \<Rightarrow> [] | c # _ \<Rightarrow> rc_pod c)"
  "sa_findings (tick_row t now ph cyc g) = Val (length (vw_findings g))"
  by (simp_all add: tick_row_def tick_counts_def tick_root_def empty_tick_def split: list.split)

lemma tick_victim_owned:
  assumes "e \<in> set (vw_edges g)" "ve_src e = sa_root r"
  shows "\<exists>e \<in> set (vw_edges g). ve_src e = sa_root r \<and> sa_victim (tick_victim g r) = ve_dst e \<and>
     sa_evidence (tick_victim g r) = py_join ''|'' (List.map tag_name (ve_evidence e))"
proof -
  let ?src = "filter (\<lambda>e. ve_src e = sa_root r) (vw_edges g)"
  have ne: "?src \<noteq> []" using assms by (auto simp: filter_empty_conv)
  then obtain b where b: "argmax (\<lambda>x. \<bar>ve_r x\<bar>) ?src = Some b" using argmax_None by blast
  then have "b \<in> set (vw_edges g)" "ve_src b = sa_root r" using argmax_SomeD[OF b] by auto
  then show ?thesis using b ne by (intro bexI[of _ b]) (simp_all add: tick_victim_def Let_def)
qed

lemma tick_row_owned:
  assumes "vw_root g = c # cs" "e \<in> set (vw_edges g)" "ve_src e = rc_pod c"
  shows "\<exists>e \<in> set (vw_edges g). ve_src e = sa_root (tick_row t now ph cyc g) \<and> ve_dst e = sa_victim (tick_row t now ph cyc g) \<and>
     sa_evidence (tick_row t now ph cyc g) = py_join ''|'' (List.map tag_name (ve_evidence e))"
proof -
  let ?r = "tick_counts g (tick_root g (empty_tick t now ph cyc\<lparr>sa_ok := True\<rparr>))"
  have "sa_root ?r = rc_pod c" using assms(1) by (simp add: tick_counts_def tick_root_def)
  with tick_victim_owned[of e g ?r] assms(2,3) show ?thesis by (fastforce simp: tick_row_def)
qed

section \<open>Properties\<close>

text \<open>A scenario's rollup is sound: the rates are fractions with correct at most detected, the
  dominant root is a root its samples really name, named the given number of times and no root more often, and
  the median delay is the nonnegative delay of one of the scenario's cycles.\<close>

theorem rollup_is_sound:
  "0 \<le> ro_correct (rollup_of s rows) \<and> ro_correct (rollup_of s rows) \<le> ro_detect (rollup_of s rows) \<and>
   ro_detect (rollup_of s rows) \<le> 1 \<and> 0 \<le> ro_oom (rollup_of s rows) \<and> ro_oom (rollup_of s rows) \<le> 1 \<and>
   pred_option (\<lambda>(x, n). 0 < n \<and> n = length (filter (\<lambda>r. sa_phase r = s \<and> rooted r \<and> sa_root r = x) rows)) (ro_dominant (rollup_of s rows)) \<and>
   (\<forall>y. length (filter (\<lambda>r. sa_phase r = s \<and> rooted r \<and> sa_root r = y) rows) \<le>
      (case ro_dominant (rollup_of s rows) of None \<Rightarrow> 0 | Some (_, n) \<Rightarrow> n)) \<and>
   pred_option (\<lambda>m. 0 \<le> m \<and> (\<exists>c. cycle_ttd s (filter (\<lambda>r. sa_phase r = s) rows) c = Some m)) (ro_median (rollup_of s rows))"
proof -
  define obs where "obs = filter (\<lambda>r. sa_phase r = s) rows"
  define wr where "wr = filter rooted obs"
  have count: "filter (\<lambda>r. sa_root r = x) wr = filter (\<lambda>r. sa_phase r = s \<and> rooted r \<and> sa_root r = x) rows" for x
    unfolding wr_def obs_def by (induction rows) auto
  have dom: "ro_dominant (rollup_of s rows) = argmax snd (root_counts wr)"
    by (simp add: rollup_of_def Let_def wr_def obs_def)
  have "pred_option (\<lambda>(x, n). 0 < n \<and> n = length (filter (\<lambda>r. sa_root r = x) wr)) (argmax snd (root_counts wr))"
    by (rule dominant_counted)
  moreover have "pred_option (\<lambda>m. 0 \<le> m \<and> (\<exists>c. cycle_ttd s obs c = Some m)) (ro_median (rollup_of s rows))"
    using ttds_mem[of _ s obs] cycle_ttd_nonneg[of s obs] nth_mem[of "length (ttds s obs) div 2" "ttds s obs"]
    by (fastforce simp: rollup_of_def Let_def obs_def[symmetric])
  moreover have "ro_detect (rollup_of s rows) \<le> 1"
    by (simp add: rollup_of_def Let_def rate_le_1 del: filter_filter)
  moreover have "ro_correct (rollup_of s rows) \<le> ro_detect (rollup_of s rows)"
    using correct_rooted by (auto simp: rollup_of_def Let_def intro!: rate_mono length_filter_mono)
  ultimately show ?thesis
    using dominant_max[of _ wr] unfolding dom count obs_def
    by (auto simp: rollup_of_def Let_def rate_nonneg rate_le_1 oom_rate_bound)
qed

text \<open>C36. The report lists each detection once, and the first one: of a run whose cycles are not labelled
  \<open>oom\<close>, the detections in the log are exactly the first rooted sample of each scenario and cycle, and the
  warnings exactly the first forecast of each cycle; the report shows the last forty at most.\<close>

theorem report_lists_first_detections:
  assumes "\<forall>r \<in> set rows. sa_cycle r \<noteq> ''oom''"
  shows "filter is_detect (event_log rows {}) = List.map detect_event (first_by key_of (filter detects rows)) \<and>
    filter (\<lambda>e. \<not> is_detect e) (event_log rows {}) =
      List.map oom_event (first_by oom_key (filter (\<lambda>r. oom_eta r \<noteq> None) rows)) \<and>
    suffix (re_events (report_of rows)) (event_log rows {}) \<and> length (re_events (report_of rows)) \<le> 40"
  using event_log_firsts[of rows "{}" "{}"] assms
  by (simp add: report_of_def report_events_def py_tail_def suffix_drop)

definition tick_of :: "string \<Rightarrow> int \<Rightarrow> string \<Rightarrow> tick" where
  "tick_of cyc now x = (empty_tick [] now ''S1'' cyc)\<lparr>sa_root := x\<rparr>"

lemma report_lists_first_detections_witness:
  "filter is_detect (event_log [tick_of ''1'' 10 [], tick_of ''1'' 22 ''a'', tick_of ''1'' 34 ''cooling-monitor''] {}) =
   [Detected [] ''S1'' ''1'' ''a'' WrongRoot]"
proof -
  let ?rows = "[tick_of ''1'' 10 [], tick_of ''1'' 22 ''a'', tick_of ''1'' 34 ''cooling-monitor'']"
  have "\<forall>r \<in> set ?rows. sa_cycle r \<noteq> ''oom''" by (simp add: tick_of_def empty_tick_def)
  from report_lists_first_detections[OF this] show ?thesis
    by (simp add: tick_of_def empty_tick_def detects_def rooted_def key_of_def detect_event_def mark_of_def expected_def
        EXPECT_def dict_get_def)
qed

text \<open>The data embedded in the report page never closes its script element.\<close>

theorem report_cannot_close_script: "\<not> sublist [CHR ''<'', CHR ''/''] (escape_close s)"
  by (rule escape_close_safe)

end
