(* ===== verification/Soak_Files.thy ===== *)
theory Soak_Files
  imports Soak
begin

text \<open>
  The files of a soak run, \<open>src/soak/record.py\<close>: the sample file with one JSON line per tick and the timeline
  with its header, the configuration snapshot, the report page with its embedded data, and the command line.
  A file is absent or the list of its lines; encoding and decoding JSON and formatting a time are parameters.
\<close>

section \<open>The sample file and the timeline\<close>

datatype field = FieldS string | FieldI int | FieldN "nat cell" | FieldR "real cell" | FieldB bool

definition COLUMNS :: "string list" where
  "COLUMNS = [''t'', ''epoch'', ''phase'', ''cycle'', ''ok'', ''root'', ''root_score'', ''onset_s'', ''n_edges'', ''n_findings'',
     ''n_incipient'', ''active'', ''pods'', ''top_victim'', ''evidence'', ''oom_pod'', ''oom_eta_s'', ''narr_source'']"

definition csv_row :: "tick \<Rightarrow> field list" where
  "csv_row r =
     [FieldS (sa_t r), FieldI (sa_epoch r), FieldS (sa_phase r), FieldS (sa_cycle r), FieldB (sa_ok r), FieldS (sa_root r),
      FieldR (sa_score r), FieldR (sa_onset r), FieldN (sa_edges r), FieldN (sa_findings r), FieldN (sa_incipient r),
      FieldN (sa_active r), FieldN (sa_pods r), FieldS (sa_victim r), FieldS (sa_evidence r), FieldS (sa_oom_pod r),
      FieldR (sa_oom_eta r), FieldS (sa_source r)]"

record run_files =
  rf_samples :: "string list option"
  rf_timeline :: "field list list option"

definition lines_of :: "'a list option \<Rightarrow> 'a list" where
  "lines_of f = (case f of None \<Rightarrow> [] | Some ls \<Rightarrow> ls)"

text \<open>The timeline gets its header when it is absent or empty.\<close>

definition append_files :: "(tick \<Rightarrow> string) \<Rightarrow> tick \<Rightarrow> run_files \<Rightarrow> run_files" where
  "append_files dumps r f =
     \<lparr>rf_samples = Some (lines_of (rf_samples f) @ [dumps r]),
      rf_timeline = Some (lines_of (rf_timeline f) @
        (if lines_of (rf_timeline f) = [] then [List.map FieldS COLUMNS] else []) @ [csv_row r])\<rparr>"

definition jload :: "(string \<Rightarrow> 'a option) \<Rightarrow> string \<Rightarrow> 'a option" where
  "jload loads s = (if strip s = [] then None else loads s)"

definition read_samples :: "(string \<Rightarrow> tick option) \<Rightarrow> run_files \<Rightarrow> tick list" where
  "read_samples loads f = List.map_filter (jload loads) (lines_of (rf_samples f))"

type_synonym environ = "string \<Rightarrow> string option"

definition env_get :: "environ \<Rightarrow> string \<Rightarrow> string" where
  "env_get env k = (case env k of None \<Rightarrow> [] | Some v \<Rightarrow> v)"

text \<open>The tick's inputs come through the environment; what cannot be parsed counts as absent.\<close>

definition env_tick ::
  "(string \<Rightarrow> view option) \<Rightarrow> (string \<Rightarrow> (string \<times> string) option) \<Rightarrow> (int \<Rightarrow> string) \<Rightarrow> environ \<times> int \<Rightarrow> tick list \<Rightarrow> tick list" where
  "env_tick graph_loads narr_loads fmt_time tk rows =
     (let env = fst tk; now = snd tk
      in append_tick (fmt_time now) now (env_get env ''PHASE'') (env_get env ''CYCLE'')
           (jload graph_loads (env_get env ''GRAPH_JSON'')) (jload narr_loads (env_get env ''NARR_JSON'')) rows)"

definition cmd_append ::
  "(string \<Rightarrow> view option) \<Rightarrow> (string \<Rightarrow> (string \<times> string) option) \<Rightarrow> (int \<Rightarrow> string) \<Rightarrow> (tick \<Rightarrow> string) \<Rightarrow> environ \<times> int \<Rightarrow>
   run_files \<Rightarrow> run_files" where
  "cmd_append graph_loads narr_loads fmt_time dumps tk f =
     append_files dumps (last (env_tick graph_loads narr_loads fmt_time tk [])) f"

section \<open>The snapshot, the report and its page\<close>

record run_meta =
  me_run_id :: string
  me_epoch :: int
  me_iso :: string
  me_scenarios :: string
  me_duration :: string
  me_sample :: string
  me_observe :: string
  me_cooldown :: string
  me_host :: string

text \<open>\<open>os.path.basename(rundir.rstrip("/\\"))\<close>.\<close>

definition run_name :: "string \<Rightarrow> string" where
  "run_name rundir =
     rev (takeWhile (\<lambda>c. c \<noteq> CHR ''/'') (dropWhile (\<lambda>c. c = CHR ''/'' \<or> c = CHR 0x5C) (rev rundir)))"

definition cmd_meta :: "(int \<Rightarrow> string) \<Rightarrow> environ \<Rightarrow> int \<Rightarrow> string \<Rightarrow> run_meta" where
  "cmd_meta fmt_time env now rundir =
     \<lparr>me_run_id = run_name rundir, me_epoch = now, me_iso = fmt_time now, me_scenarios = env_get env ''SCENARIOS'',
      me_duration = env_get env ''DURATION_H'', me_sample = env_get env ''SAMPLE_S'', me_observe = env_get env ''OBSERVE_S'',
      me_cooldown = env_get env ''COOLDOWN_S'', me_host = env_get env ''HOSTNAME''\<rparr>"

record full_summary =
  fs_run_id :: string
  fs_started :: string
  fs_ended :: string
  fs_scenarios :: string
  fs_generated :: string
  fs_numbers :: summary

text \<open>A missing snapshot falls back to the directory's name and the usual scenarios.\<close>

definition full_summary_of :: "(int \<Rightarrow> string) \<Rightarrow> int \<Rightarrow> string \<Rightarrow> run_meta option \<Rightarrow> tick list \<Rightarrow> full_summary" where
  "full_summary_of fmt_time now rundir meta rows =
     \<lparr>fs_run_id = (case meta of None \<Rightarrow> run_name rundir | Some m \<Rightarrow> me_run_id m),
      fs_started = (case meta of None \<Rightarrow> [] | Some m \<Rightarrow> me_iso m),
      fs_ended = (case su_ended (summary_of rows) of None \<Rightarrow> [] | Some t1 \<Rightarrow> fmt_time t1),
      fs_scenarios = (case meta of None \<Rightarrow> py_join '' '' SCEN_ORDER | Some m \<Rightarrow> me_scenarios m),
      fs_generated = fmt_time now, fs_numbers = summary_of rows\<rparr>"

text \<open>\<open>str.replace\<close> for a pattern that is not empty: left to right, without overlaps.\<close>

function replace_all :: "string \<Rightarrow> string \<Rightarrow> string \<Rightarrow> string" where
  "replace_all pat new s =
     (if pat = [] \<or> s = [] then s
      else if starts_with pat s then new @ replace_all pat new (drop (length pat) s)
      else hd s # replace_all pat new (tl s))"
  by pat_completeness auto
termination by (relation "measure (\<lambda>(pat, new, s). length s)") auto

declare replace_all.simps [simp del]

definition SLOT :: string where "SLOT = ''__SOAK_DATA__''"

text \<open>The snapshot is absent, unreadable or read; an unreadable one is \<open>None\<close> in Python, whose \<open>get\<close> fails.\<close>

definition cmd_report ::
  "(string \<Rightarrow> tick option) \<Rightarrow> (full_summary \<times> report \<Rightarrow> string) \<Rightarrow> (int \<Rightarrow> string) \<Rightarrow> int \<Rightarrow> string \<Rightarrow> run_meta option option \<Rightarrow>
   run_files \<Rightarrow> string \<Rightarrow> string outcome" where
  "cmd_report loads dumps fmt_time now rundir meta f template =
     (case meta of
        Some None \<Rightarrow> Raise AttributeError
      | _ \<Rightarrow>
         (let rows = read_samples loads f;
              m = (case meta of None \<Rightarrow> None | Some x \<Rightarrow> x);
              blob = escape_close (dumps (full_summary_of fmt_time now rundir m rows, report_of rows))
          in Ret (replace_all SLOT blob template)))"

section \<open>The command line\<close>

datatype command = Append string string | Meta string | Report string string | Usage | Unknown string

definition arg :: "string list \<Rightarrow> nat \<Rightarrow> string outcome" where
  "arg argv i = (if i < length argv then Ret (argv ! i) else Raise IndexError)"

definition command_of :: "string list \<Rightarrow> command outcome" where
  "command_of argv =
     (if length argv < 2 then Ret Usage
      else if argv ! 1 = ''append'' then obind (arg argv 2) (\<lambda>a. obind (arg argv 3) (\<lambda>b. Ret (Append a b)))
      else if argv ! 1 = ''meta'' then obind (arg argv 2) (\<lambda>a. Ret (Meta a))
      else if argv ! 1 = ''report'' then obind (arg argv 2) (\<lambda>a. obind (arg argv 3) (\<lambda>b. Ret (Report a b)))
      else Ret (Unknown (argv ! 1)))"

section \<open>Lemmas\<close>

lemma append_files_all:
  "lines_of (rf_samples (fold (append_files dumps) rows f)) = lines_of (rf_samples f) @ List.map dumps rows"
  by (induction rows arbitrary: f) (simp_all add: append_files_def lines_of_def)

lemma append_files_timeline:
  "lines_of (rf_timeline f) = [] \<or> hd (lines_of (rf_timeline f)) = List.map FieldS COLUMNS \<Longrightarrow>
   lines_of (rf_timeline (fold (append_files dumps) rows f)) =
     (if rows = [] then lines_of (rf_timeline f)
      else (if lines_of (rf_timeline f) = [] then [List.map FieldS COLUMNS] else lines_of (rf_timeline f)) @ List.map csv_row rows)"
proof (induction rows arbitrary: f)
  case (Cons r rows)
  define f' where "f' = append_files dumps r f"
  have t: "lines_of (rf_timeline f') = (if lines_of (rf_timeline f) = [] then [List.map FieldS COLUMNS] else lines_of (rf_timeline f)) @ [csv_row r]"
    by (simp add: f'_def append_files_def lines_of_def)
  have "hd (lines_of (rf_timeline f')) = List.map FieldS COLUMNS" using Cons.prems by (auto simp: t hd_append)
  from Cons.IH[of f'] this t show ?case by (simp add: f'_def[symmetric])
qed simp

lemma read_samples_lines:
  assumes "rf_samples f = Some ls"
  shows "read_samples loads f = List.map_filter (jload loads) ls"
  using assms by (simp add: read_samples_def lines_of_def)

text \<open>A line that cannot be read costs only itself.\<close>

lemma unreadable_line_skipped:
  "jload loads l = None \<Longrightarrow> read_samples loads (f\<lparr>rf_samples := Some (xs @ l # ys)\<rparr>) = read_samples loads (f\<lparr>rf_samples := Some (xs @ ys)\<rparr>)"
  by (simp add: read_samples_def lines_of_def map_filter_def)

lemma env_ticks:
  "fold (env_tick gl nl ft) tks rows = rows @ List.map (\<lambda>tk. last (env_tick gl nl ft tk [])) tks"
  by (induction tks arbitrary: rows) (simp_all add: env_tick_def append_tick_def Let_def)

lemma cmd_appends:
  "fold (cmd_append gl nl ft dumps) tks f = fold (append_files dumps) (fold (env_tick gl nl ft) tks []) f"
  unfolding env_ticks by (induction tks arbitrary: f) (simp_all add: cmd_append_def)

text \<open>The ticks of a fresh run: the samples they take and the files they leave.\<close>

definition fresh_run :: run_files where "fresh_run = \<lparr>rf_samples = None, rf_timeline = None\<rparr>"

definition run_rows ::
  "(string \<Rightarrow> view option) \<Rightarrow> (string \<Rightarrow> (string \<times> string) option) \<Rightarrow> (int \<Rightarrow> string) \<Rightarrow> (environ \<times> int) list \<Rightarrow> tick list" where
  "run_rows gl nl ft tks = fold (env_tick gl nl ft) tks []"

definition run_of ::
  "(string \<Rightarrow> view option) \<Rightarrow> (string \<Rightarrow> (string \<times> string) option) \<Rightarrow> (int \<Rightarrow> string) \<Rightarrow> (tick \<Rightarrow> string) \<Rightarrow> (environ \<times> int) list \<Rightarrow> run_files" where
  "run_of gl nl ft dumps tks = fold (cmd_append gl nl ft dumps) tks fresh_run"

text \<open>A tick without a readable graph still leaves its row, marked as not ok.\<close>

lemma unreadable_graph_recorded:
  assumes "jload gl (env_get env ''GRAPH_JSON'') = None"
  shows "\<exists>r. cmd_append gl nl ft dumps (env, now) f = append_files dumps r f \<and> \<not> sa_ok r \<and> sa_epoch r = now"
  using assms by (auto simp: cmd_append_def env_tick_def append_tick_def empty_tick_def Let_def split: option.split)

lemma read_back:
  assumes "\<forall>r \<in> set rows. loads (dumps r) = Some r \<and> strip (dumps r) \<noteq> []"
  shows "read_samples loads (fold (append_files dumps) rows fresh_run) = rows"
proof -
  have "List.map_filter (jload loads) (List.map dumps rows) = rows"
    using assms by (induction rows) (simp_all add: jload_def map_filter_def)
  then show ?thesis
    using append_files_all[of dumps rows "fresh_run"]
    by (simp add: read_samples_def lines_of_def fresh_run_def)
qed

section \<open>Properties\<close>

text \<open>C39. The recorder loses nothing, from the environment of its ticks to the page: when each recorded sample can be
  read back from its own line, a fresh run leaves a sample file that reads back as exactly the samples of its ticks
  in order, a timeline of one header followed by one row per sample, and a report whose page embeds the
  summary and the report of these samples.\<close>

theorem recorder_roundtrip:
  assumes "\<forall>r \<in> set (run_rows gl nl ft tks). loads (dumps r) = Some r \<and> strip (dumps r) \<noteq> []"
  shows "(let rows = run_rows gl nl ft tks; f = run_of gl nl ft dumps tks in
    read_samples loads f = rows \<and>
    lines_of (rf_timeline f) = (if rows = [] then [] else List.map FieldS COLUMNS # List.map csv_row rows) \<and>
    cmd_report loads page ft now rundir (Some (Some m)) f template =
      Ret (replace_all SLOT (escape_close (page (full_summary_of ft now rundir (Some m) rows, report_of rows))) template))"
proof -
  let ?rows = "run_rows gl nl ft tks"
  have f: "run_of gl nl ft dumps tks = fold (append_files dumps) ?rows fresh_run"
    by (simp add: run_of_def run_rows_def cmd_appends)
  have "read_samples loads (run_of gl nl ft dumps tks) = ?rows" using read_back[OF assms] by (simp add: f)
  then show ?thesis
    using append_files_timeline[of fresh_run dumps ?rows]
    by (simp add: f lines_of_def fresh_run_def cmd_report_def)
qed

definition demo_ticks :: "(environ \<times> int) list" where
  "demo_ticks = [(\<lambda>k. if k = ''PHASE'' then Some ''S1'' else None, 10)]"

lemma recorder_roundtrip_witness:
  "\<exists>r. read_samples (\<lambda>l. Some r) (run_of (\<lambda>_. None) (\<lambda>_. None) (\<lambda>_. ''t'') (\<lambda>r. ''{1}'') demo_ticks) = [r] \<and>
     sa_phase r = ''S1'' \<and> sa_epoch r = 10"
proof -
  have "\<exists>r. run_rows (\<lambda>_. None) (\<lambda>_. None) (\<lambda>_. ''t'') demo_ticks = [r] \<and> sa_phase r = ''S1'' \<and> sa_epoch r = 10"
    by (simp add: run_rows_def demo_ticks_def env_tick_def append_tick_def env_get_def empty_tick_def jload_def strip_def Let_def)
  then obtain r where r: "run_rows (\<lambda>_. None) (\<lambda>_. None) (\<lambda>_. ''t'') demo_ticks = [r]" "sa_phase r = ''S1''" "sa_epoch r = 10"
    by blast
  have "\<forall>x \<in> set (run_rows (\<lambda>_. None) (\<lambda>_. None) (\<lambda>_. ''t'') demo_ticks).
      (\<lambda>l. Some r) ((\<lambda>r. ''{1}'') x) = Some x \<and> strip ((\<lambda>r. ''{1}'') x) \<noteq> []"
    by (simp add: r(1) strip_def is_space_def)
  from recorder_roundtrip[OF this] r show ?thesis by (intro exI[of _ r]) (simp add: Let_def)
qed

end
