(* ===== verification/Spec2Isabelle.thy ===== *)
theory Spec2Isabelle
  imports Quiet History Wording Gateway Soak_Files
begin

text \<open>
  A verification library for a causal correlation engine and the programs around it.

  \<^bold>\<open>The program.\<close> An aggregator collects per-pod samples of a factory cluster. The correlation service
  (\<open>src/correlation\<close>) reads its window every few seconds, looks for onsets of resource stall in each pod,
  correlates them at several lags, admits an edge from one pod to another only with evidence of a coupling,
  ranks the pods that explain the stall, and keeps what it learned in one SQLite database per resource
  signal. The per-signal graphs are merged and served; the API (\<open>src/api\<close>) collapses pods to workloads and
  derives a narrative, recommendations and tables from it, and can fire the demonstration faults. The soak
  recorder (\<open>src/soak\<close>) samples the API and writes a report; the workloads (\<open>src/workloads\<close>) are what is watched.

  \<^bold>\<open>Theories and code.\<close> Each theory imports the components its code calls; names are those of the source
  unless they clash with a constant of HOL.
    \<^item> \<open>Py_Base\<close>, \<open>Num_Lib\<close>, \<open>Digraph_Lib\<close>: the language (outcomes with exceptions and divergence,
      dictionaries, slices, keyed extrema, rounding, splitting) and the numpy, scipy and networkx calls as
      records of parameters with documented laws as named predicates.
    \<^item> \<open>Detectors\<close>, \<open>Lagcorr\<close>, \<open>Gate\<close>, \<open>Ranking\<close>, \<open>Forecast\<close>: \<open>engine/detectors.py\<close>, \<open>lagcorr.py\<close>,
      \<open>gate.py\<close>, \<open>ranking.py\<close>, \<open>forecast.py\<close>. \<open>Keep_Best\<close> is the loop that the pass and the memory share.
    \<^item> \<open>Pipeline\<close>: \<open>run_pass\<close> of \<open>engine/pipeline.py\<close>, composed of the above.
    \<^item> \<open>Sql_Table\<close>, \<open>Relaxation\<close>, \<open>Edge_Memory\<close>, \<open>Baselines\<close>, \<open>Case_Library\<close>, \<open>Edge_Spec\<close>, \<open>Observe\<close>: the graph
      memory of \<open>engine/state.py\<close>. Tables are lists of rows under a primary key in rowid order. \<open>Observe\<close> is
      \<open>GraphMemory\<close> as a whole: opening, migration, one observed pass, held edges, rendering and statistics.
    \<^item> \<open>Graph_Merge\<close>: \<open>engine/merge.py\<close>. \<open>Time_Grid\<close> and \<open>Service\<close>: \<open>service.py\<close>, that is \<open>build_inputs\<close>,
      \<open>witness_for\<close>, the database paths, the start, and one round over all signals with its error paths.
    \<^item> \<open>Workload_Name\<close>, \<open>Api_Analysis\<close>, \<open>Api_View\<close>, \<open>Scenarios\<close>: \<open>api/main.py\<close>. The first resolves pod names;
      then topology, right-sizing, fairness and resource tables; the view, the verdict's signature,
      the narrative and its cache, the pod list; firing and resetting scenarios. \<open>Wording\<close> prints them.
    \<^item> \<open>Soak\<close> and \<open>Soak_Files\<close>: \<open>soak/record.py\<close>, the report and the files. \<open>Workloads\<close>: the ingester, the frame
      cache, the batch analytics, the cooling monitor.
    \<^item> \<open>Gateway\<close>: the routes and small replies of both services, the model call, and the console acting on the
      workloads. \<open>History\<close>: what rounds and restarts keep. \<open>Quiet\<close>: the engine composed from pass to narrative, in a quiet round and after a cold start.

  \<^bold>\<open>State and reachability.\<close> State is passed explicitly. The state machines are inductive sets of reachable
  states with invariants by rule induction: \<open>mem_reach\<close> (edge tables under passes), \<open>lib_reach\<close> (case
  library), \<open>serve_reach\<close> (service rounds and restarts), \<open>cache_reach\<close> (narrative cache), \<open>ingest_reach\<close>
  (receiver and writer threads in any interleaving), and step relations under the contract of \<open>Machine\<close>:
  \<open>serve_step\<close>, \<open>ingest_step\<close> and \<open>cooling_step\<close>. \<open>walk\<close> is the inductive specification of the graph
  searches.

  \<^bold>\<open>Interfaces.\<close> \<open>edge_rule\<close> (an admission rule with a floor and a coupling) is interpreted by the gate
  and by the writer rule of the pass; \<open>relaxation\<close> (a learning rule) by confirmation, decay and baselines;
  \<open>keyed_store\<close> by both ways of writing a row; \<open>machine\<close>, with its extensions \<open>evolving\<close> and \<open>logging\<close>, by the
  service, the ingester and the cooling monitor. Their lemmas carry the properties of the interpreting theories.

  \<^bold>\<open>What the lemmas show.\<close> In the engine: the detector is silent exactly without a run of residuals and its onsets
  start their runs; every edge is grounded in a coupling, a correlation and an onset order; a write-evidenced
  edge blames a real writer; corroborating evidence never decides; the ranking's worklist computes the best
  decayed walk; the pass always returns. In the memory: rows keep \<open>0 \<le> floor \<le> confidence \<le> 1\<close> with a
  hysteresis of visibility, a pass refines a row-wise specification, baselines and cases are learned only as
  intended (and where they are not), a restart finds every memory and reopening preserves the archive. In the
  service: inputs are aligned on one grid, a round answers in every reachable state, feed errors are exactly
  \<open>KeyError\<close>, and the merged verdict is owned by a signal with an edge. A round in which every pod is within
  its learned band serves no verdict, a service just started is silent until its baselines have matured, and
  rounds and restarts only ever add to the archive.
  Around it: the narrative always answers and its cache fits the verdict, right-sizing keeps its headroom,
  firing a scenario makes at most one job or exactly one storm, the frame cache grows exactly while the leak
  is on, a recorder's run reads back as what it recorded and its rates and events are sound, and the
  ingester accounts for every message. The last section of this theory joins the ends: what the recorder keeps of a
  reachable service is grounded in a drawn edge.

  \<^bold>\<open>Numbers, bounds and termination.\<close> Floats are exact reals and Python integers are \<open>int\<close> or \<open>nat\<close>;
  rounding is half to even as in Python; a NaN that the code tests for is \<open>None\<close>. The worklists of \<open>Ranking\<close>
  are \<open>partial_function (option)\<close>, and theorems show that they return; no theorem rests on fuel. The only
  bounded waiting is the source's own: twenty polls for an old job. The burst of the batch analytics ends when
  its clock passes the limit (\<open>burst_ends\<close>). Windows are short by construction (180 grid points, 36 for a
  witness), and the theorems are stated for any length unless the code fixes one.

  \<^bold>\<open>Parameters.\<close> numpy and scipy (\<open>numlib\<close>), networkx (\<open>nxlib\<close>), the digest of a fingerprint, the parser of
  times, the language model, the cluster's answers (\<open>world\<close>). Hypotheses on them are documented behaviour
  and each property that uses one has a witness at a concrete instance.

  \<^bold>\<open>Deviations the modelling found.\<close> The blast radius marks a pod at its first walk and misses stronger ones
  (\<open>blast_radius_misses_strong_walk\<close>); the pass judges a pod by its recent tail but the baseline judges the
  whole ring, so a short incident is learned into the baseline it deviates from
  (\<open>short_incident_is_learned\<close>, while \<open>baseline_skips_exactly_incidents\<close> states the rule the code keeps); a weak edge of a second resource replaces a strong one of the same pair
  and can clear the aggressor (\<open>second_resource_clears_aggressor\<close>); a comment on near ties in \<open>lagcorr.py\<close>
  describes a preference the code does not have; a failed write of the ingester loses its batch
  (\<open>failed_batch_is_lost\<close>) and its gauge stands still meanwhile (\<open>gauge_moves_with_commits\<close>); resetting a
  scenario lets a lost connection escape (\<open>reset_failure_escapes\<close>).

  \<^bold>\<open>Not modelled.\<close> SQL text, the encoding of JSON and CSV (a decoder or encoder is a parameter); the HTTP servers,
  sockets and threads of the services (routes, rounds and replies are modelled, fetching is an input); the text
  of prompts and log lines, how a float is printed; the Prometheus, Kubernetes, database and broker clients (what they
  answer is a parameter or a choice of a step); parsing of numbers in environment variables, whose defaults are
  those of \<open>default_settings\<close>; the Go aggregator, which the engine sees only through \<open>/window\<close> and
  \<open>/events\<close>; the numeric work inside the workloads, which nothing depends on; the dashboard, charts and
  deployment files.
\<close>

section \<open>From the memories to the report\<close>

lemma served_root_owned:
  assumes "served_ok s" "vw_root (view_of s) = c # cs"
  shows "(\<exists>e \<in> set (vw_edges (view_of s)). ve_src e = rc_pod c) \<and> vw_findings (view_of s) \<noteq> []"
  using assms by (fastforce simp: view_of_def served_ok_def graph_ok_def view_edge_def split: served.splits)

text \<open>Without a model the text names the root and, over an edge drawn from that very root, a victim with the
  edge's evidence.\<close>

lemma template_cites_root:
  assumes "served_ok s" "vw_root (view_of s) = c # cs"
  shows "\<exists>e \<in> set (vw_edges (view_of s)). ve_src e = rc_pod c \<and>
    (let t = text_of show_float (template_narrative (view_of s))
     in sublist (rc_pod c) t \<and> sublist (ve_dst e) t \<and>
        (ve_evidence e \<noteq> [] \<longrightarrow> sublist (py_join '', '' (List.map tag_name (ve_evidence e))) t))"
proof -
  let ?g = "view_of s"
  let ?out = "filter (\<lambda>e. ve_src e = rc_pod c) (vw_edges ?g)"
  have ne: "?out \<noteq> []" using served_root_owned[OF assms] by (auto simp: filter_empty_conv)
  define e where "e = max_by (\<lambda>x. \<bar>ve_r x\<bar>) (hd ?out) (tl ?out)"
  have "e \<in> set ?out" using max_by_mem[of "\<lambda>x. \<bar>ve_r x\<bar>" "hd ?out" "tl ?out"] ne by (cases ?out) (auto simp: e_def)
  moreover have "vw_edges ?g \<noteq> []" using ne by auto
  then have "\<exists>sig eta reg. template_narrative ?g = Cause (rc_pod c) sig (ve_dst e) (ve_evidence e) eta reg"
    using ne assms(2) by (auto simp: template_narrative_def Let_def e_def split: list.split)
  then have "\<exists>sig eta reg. text_of show_float (template_narrative ?g) = cause_text (rc_pod c) sig (ve_dst e) (ve_evidence e) eta reg"
    by fastforce
  ultimately show ?thesis using cause_text_cites by (auto simp: Let_def intro!: bexI[of _ e])
qed

text \<open>C19. A recorded verdict is grounded. Whatever state the service has reached, the sample the recorder takes
  of the API's view either names no root and the view shows none, or it names a root with at least one finding
  and records, as its victim, a pod that an edge drawn from that very root leads to, with that
  edge's evidence: the recorder never falls back to an edge of another pod.\<close>

theorem recorded_verdict_is_grounded:
  assumes "digraph_laws (lb_nx lb)" "corr_bounded (lb_np lb)" "settings_ok st" "serve_reach st lb s"
  shows "\<exists>r. append_tick t now ph cyc (Some (view_of (s_graph s))) narr rows = rows @ [r] \<and>
    ((vw_root (view_of (s_graph s)) = [] \<and> sa_root r = []) \<or>
     ((\<exists>n > 0. sa_findings r = Val n) \<and>
      (\<exists>e \<in> set (vw_edges (view_of (s_graph s))). ve_src e = sa_root r \<and> ve_dst e = sa_victim r \<and>
         sa_evidence r = py_join ''|'' (List.map tag_name (ve_evidence e)))))"
proof -
  have ok: "served_ok (s_graph s)" using serve_reach_ok[OF assms] by blast
  show ?thesis
  proof (cases "vw_root (view_of (s_graph s))")
    case Nil
    then show ?thesis by (auto simp: append_tick_row tick_row_head split: option.split)
  next
    case (Cons c cs)
    from served_root_owned[OF ok Cons] tick_row_owned[OF Cons, of _ t now ph cyc]
    show ?thesis by (auto simp: append_tick_row tick_row_head split: option.split)
  qed
qed

lemma recorded_verdict_is_grounded_witness:
  "\<exists>s r. serve_reach default_settings demo_libs s \<and>
     append_tick ''t'' 1 ''S1'' ''1'' (Some (view_of (s_graph s))) None [] = [r] \<and>
     ((vw_root (view_of (s_graph s)) = [] \<and> sa_root r = []) \<or>
      (\<exists>e \<in> set (vw_edges (view_of (s_graph s))). ve_src e = sa_root r \<and> ve_dst e = sa_victim r))"
proof -
  obtain s where s: "serve_reach default_settings demo_libs s" using demo_start by blast
  have "digraph_laws (lb_nx demo_libs)" "corr_bounded (lb_np demo_libs)"
    using log_nx_laws quick_num_corr_bounded by (simp_all add: demo_libs_def)
  from recorded_verdict_is_grounded[OF this default_settings_ok s, of "''t''" 1 "''S1''" "''1''" None "[]"] s
  show ?thesis by auto
qed

end
